theory Spec2Isabelle
  imports Complex_Main
begin

section \<open>Python values used by the transcription tool\<close>

subsection \<open>Strings\<close>

text \<open>
  A Python \<^verbatim>\<open>str\<close> is a sequence of Unicode code points; the transcripts and the
  diagnostics of this program are mostly outside ASCII, and \<^verbatim>\<open>str.strip\<close> removes
  Unicode white space, so a string is modelled as the list of its code points.
  \<open>ascii\<close> embeds an ASCII literal.
\<close>

type_synonym pystr = "nat list"

definition ascii :: "string \<Rightarrow> pystr" where
  "ascii s = map of_char s"

text \<open>The code points for which \<^verbatim>\<open>str.isspace\<close> holds (the set \<^verbatim>\<open>str.strip()\<close> removes).\<close>

definition isspace :: "nat \<Rightarrow> bool" where
  "isspace c \<longleftrightarrow>
     (9 \<le> c \<and> c \<le> 13) \<or> (28 \<le> c \<and> c \<le> 32) \<or> c = 133 \<or> c = 160 \<or> c = 5760 \<or>
     (8192 \<le> c \<and> c \<le> 8202) \<or> c = 8232 \<or> c = 8233 \<or> c = 8239 \<or> c = 8287 \<or> c = 12288"

definition lstrip :: "pystr \<Rightarrow> pystr" where
  "lstrip s = dropWhile isspace s"

definition rstrip :: "pystr \<Rightarrow> pystr" where
  "rstrip s = rev (dropWhile isspace (rev s))"

definition strip :: "pystr \<Rightarrow> pystr" where
  "strip s = rstrip (lstrip s)"

text \<open>\<^verbatim>\<open>sep.join(xs)\<close>.\<close>

fun join :: "pystr \<Rightarrow> pystr list \<Rightarrow> pystr" where
  "join sep [] = []"
| "join sep [x] = x"
| "join sep (x # y # ys) = x @ sep @ join sep (y # ys)"

definition endswith :: "pystr \<Rightarrow> pystr \<Rightarrow> bool" where
  "endswith s suf \<longleftrightarrow> take (length suf) (rev s) = rev suf"

text \<open>Decimal rendering of integers: \<^verbatim>\<open>str(i)\<close> and the format specification
  \<^verbatim>\<open>{i:0Wd}\<close> (sign first, then zeros up to the width \<open>W\<close>, then the digits).\<close>

fun digits :: "nat \<Rightarrow> pystr" where
  "digits n = (if n < 10 then [48 + n] else digits (n div 10) @ [48 + n mod 10])"

declare digits.simps [simp del]

definition str_int :: "int \<Rightarrow> pystr" where
  "str_int i = (if i < 0 then 45 # digits (nat (- i)) else digits (nat i))"

definition fmt_0d :: "nat \<Rightarrow> int \<Rightarrow> pystr" where
  "fmt_0d width i =
     (let sgn = (if i < 0 then [45] else []); ds = digits (nat \<bar>i\<bar>)
      in sgn @ replicate (width - length sgn - length ds) 48 @ ds)"

subsection \<open>Exceptions\<close>

text \<open>
  An exception is its class and the text \<^verbatim>\<open>str(e)\<close> gives. Every class below derives
  from \<^verbatim>\<open>Exception\<close>, so \<^verbatim>\<open>except Exception\<close> catches all of them, and
  \<^verbatim>\<open>except RuntimeError\<close> only the first.
\<close>

datatype exn_class = RuntimeError | ValueError | OverflowError | KeyError | OSError | OtherError

datatype exn = Exn (exn_class: exn_class) (exn_str: pystr)

subsection \<open>Floats\<close>

text \<open>
  A Python \<^verbatim>\<open>float\<close> is an IEEE 754 binary64 value: a rational, an infinity or NaN
  (the two zeros are not told apart: nothing here depends on the sign of zero).
  \<open>fl64\<close> rounds an exact result to the nearest binary64 value, ties to even:
  53 bits of precision, exponents from -1022 (below it the spacing stays \<open>2^-1074\<close>),
  and overflow to an infinity when the rounded value reaches \<open>2^1024\<close>.
\<close>

datatype pyfloat = Finite rat | PosInf | NegInf | NaN

fun bit_length :: "nat \<Rightarrow> nat" where
  "bit_length n = (if n = 0 then 0 else Suc (bit_length (n div 2)))"

declare bit_length.simps [simp del]

definition ilog2 :: "rat \<Rightarrow> int" where
  "ilog2 a =
     (if 1 \<le> a then int (bit_length (nat \<lfloor>a\<rfloor>)) - 1
      else - int (bit_length (nat (\<lceil>1 / a\<rceil> - 1))))"

definition round_half_even :: "rat \<Rightarrow> int" where
  "round_half_even q =
     (let f = \<lfloor>q\<rfloor>; r = q - of_int f
      in if r < 1 / 2 then f else if 1 / 2 < r then f + 1 else if even f then f else f + 1)"

definition fl64 :: "rat \<Rightarrow> pyfloat" where
  "fl64 q =
     (if q = 0 then Finite 0
      else
        let a = \<bar>q\<bar>;
            e = max (ilog2 a) (- 1022);
            ulp = 2 powi (e - 52);
            r = of_int (round_half_even (a / ulp)) * ulp
        in if 2 powi 1024 \<le> r then (if 0 < q then PosInf else NegInf)
           else Finite (if 0 < q then r else - r))"

fun float_mul :: "pyfloat \<Rightarrow> pyfloat \<Rightarrow> pyfloat" where
  "float_mul (Finite a) (Finite b) = fl64 (a * b)"
| "float_mul NaN _ = NaN"
| "float_mul _ NaN = NaN"
| "float_mul (Finite a) PosInf = (if a = 0 then NaN else if 0 < a then PosInf else NegInf)"
| "float_mul (Finite a) NegInf = (if a = 0 then NaN else if 0 < a then NegInf else PosInf)"
| "float_mul PosInf (Finite b) = (if b = 0 then NaN else if 0 < b then PosInf else NegInf)"
| "float_mul NegInf (Finite b) = (if b = 0 then NaN else if 0 < b then NegInf else PosInf)"
| "float_mul PosInf PosInf = PosInf"
| "float_mul PosInf NegInf = NegInf"
| "float_mul NegInf PosInf = NegInf"
| "float_mul NegInf NegInf = PosInf"

text \<open>\<^verbatim>\<open>round(x)\<close> on a float: the nearest integer, ties to even; an infinity raises
  \<^verbatim>\<open>OverflowError\<close> and NaN raises \<^verbatim>\<open>ValueError\<close>.\<close>

fun py_round :: "pyfloat \<Rightarrow> exn + int" where
  "py_round (Finite q) = Inr (round_half_even q)"
| "py_round PosInf = Inl (Exn OverflowError (ascii ''cannot convert float infinity to integer''))"
| "py_round NegInf = Inl (Exn OverflowError (ascii ''cannot convert float infinity to integer''))"
| "py_round NaN = Inl (Exn ValueError (ascii ''cannot convert float NaN to integer''))"

section \<open>The small helpers of app.py\<close>

subsection \<open>format_timestamp (lines 30-41)\<close>

text \<open>Lines 32-34: \<^verbatim>\<open>None\<close> becomes \<^verbatim>\<open>0.0\<close>, and
  \<^verbatim>\<open>ms = int(round(seconds * 1000))\<close>; the product is a float product.\<close>

definition milliseconds :: "pyfloat option \<Rightarrow> exn + int" where
  "milliseconds seconds =
     (let seconds = (case seconds of None \<Rightarrow> Finite 0 | Some s \<Rightarrow> s)
      in py_round (float_mul seconds (Finite 1000)))"

text \<open>Lines 35-41; \<^verbatim>\<open>//\<close> and \<^verbatim>\<open>%\<close> round towards minus infinity, as \<open>div\<close> and
  \<open>mod\<close> do.\<close>

definition format_timestamp :: "pyfloat option \<Rightarrow> exn + pystr" where
  "format_timestamp seconds =
     (case milliseconds seconds of
        Inl e \<Rightarrow> Inl e
      | Inr ms \<Rightarrow>
          let hours = ms div 3600000;
              ms = ms mod 3600000;
              minutes = ms div 60000;
              ms = ms mod 60000;
              secs = ms div 1000;
              ms = ms mod 1000
          in Inr (fmt_0d 2 hours @ ascii '':'' @ fmt_0d 2 minutes @ ascii '':'' @
                  fmt_0d 2 secs @ ascii '','' @ fmt_0d 3 ms))"

subsection \<open>Segments and build_srt (lines 127-138)\<close>

text \<open>
  A segment of the engine's output: \<^verbatim>\<open>seg.start\<close>, \<^verbatim>\<open>seg.end\<close> (a float or
  \<^verbatim>\<open>None\<close>) and \<^verbatim>\<open>seg.text\<close>.
\<close>

record segment =
  seg_start :: "pyfloat option"
  seg_end :: "pyfloat option"
  seg_text :: pystr

definition nl :: pystr where
  "nl = [10]"

text \<open>The body of the loop of \<^verbatim>\<open>build_srt\<close> for the segment numbered \<open>i\<close>.\<close>

definition srt_block :: "nat \<Rightarrow> segment \<Rightarrow> exn + pystr" where
  "srt_block i seg =
     (case format_timestamp (seg_start seg) of
        Inl e \<Rightarrow> Inl e
      | Inr start \<Rightarrow>
          (case format_timestamp (seg_end seg) of
             Inl e \<Rightarrow> Inl e
           | Inr end' \<Rightarrow>
               (let text' = strip (seg_text seg)
                in Inr (str_int (int i) @ nl @ start @ ascii '' --> '' @ end' @ nl @ text' @ nl))))"

text \<open>The loop \<^verbatim>\<open>for i, seg in enumerate(segments, start=1)\<close>, with the list
  \<^verbatim>\<open>srt_blocks\<close> it appends to; the first exception ends it.\<close>

fun build_srt_loop :: "pystr list \<Rightarrow> nat \<Rightarrow> segment list \<Rightarrow> exn + pystr list" where
  "build_srt_loop srt_blocks i [] = Inr srt_blocks"
| "build_srt_loop srt_blocks i (seg # segs) =
     (case srt_block i seg of
        Inl e \<Rightarrow> Inl e
      | Inr block \<Rightarrow> build_srt_loop (srt_blocks @ [block]) (Suc i) segs)"

definition build_srt :: "segment list \<Rightarrow> exn + pystr" where
  "build_srt segments =
     (case build_srt_loop [] 1 segments of
        Inl e \<Rightarrow> Inl e
      | Inr srt_blocks \<Rightarrow> Inr (strip (join nl srt_blocks) @ nl))"

section \<open>The world outside the program\<close>

text \<open>
  The program calls the operating system (temporary directories, the yt-dlp subprocess,
  directory listings, file writes) and the faster-whisper library (constructing a
  \<^verbatim>\<open>WhisperModel\<close>, running it). Each such call is an \<open>event\<close>; the world keeps the
  list of the events so far, and what a call answers is a function of that history,
  given by the environment \<open>env\<close>. So the same call can fail once and succeed later,
  and a theorem about what the program never calls is a statement about the history.
\<close>

type_synonym key = "pystr \<times> pystr \<times> pystr"

text \<open>A \<^verbatim>\<open>WhisperModel\<close> object, known by its identity.\<close>

datatype engine = Engine (eid: nat)

text \<open>What \<^verbatim>\<open>audio_file\<close> can be: a path string, or an upload object with its
  \<^verbatim>\<open>.name\<close> attribute, if it has one.\<close>

datatype media = Path pystr | Handle "pystr option"

record proc =
  returncode :: int
  stderr :: pystr

record info =
  language_detected :: pystr
  duration :: pyfloat

text \<open>The iterable \<^verbatim>\<open>model.transcribe\<close> returns is lazy: iterating it yields
  segments and may then raise.\<close>

datatype segments = Segments (yielded: "segment list") (failure: "exn option")

datatype event =
    EvMkdtemp pystr
  | EvRun "pystr list" pystr
  | EvConstruct key
  | EvInfer engine media int "pystr option" pystr
  | EvWrite pystr pystr

record env =
  sys_executable :: pystr
  path_join :: "pystr \<Rightarrow> pystr \<Rightarrow> pystr"
  mkdtemp :: "event list \<Rightarrow> pystr \<Rightarrow> exn + pystr"
  subprocess_run :: "event list \<Rightarrow> pystr list \<Rightarrow> pystr \<Rightarrow> exn + proc"
  glob_glob :: "event list \<Rightarrow> pystr \<Rightarrow> pystr list"
  isfile :: "event list \<Rightarrow> pystr \<Rightarrow> bool"
  WhisperModel :: "event list \<Rightarrow> key \<Rightarrow> exn option"
  model_transcribe ::
    "event list \<Rightarrow> engine \<Rightarrow> media \<Rightarrow> int \<Rightarrow> pystr option \<Rightarrow> pystr \<Rightarrow> exn + (segments \<times> info)"
  write_file :: "event list \<Rightarrow> pystr \<Rightarrow> pystr \<Rightarrow> exn option"

text \<open>The state: the module-level dictionary \<^verbatim>\<open>MODEL_CACHE\<close>, the identity the next
  constructed object gets, and the history.\<close>

record world =
  cache :: "key \<rightharpoonup> engine"
  next_obj :: nat
  hist :: "event list"

definition log_event :: "event \<Rightarrow> world \<Rightarrow> world" where
  "log_event ev w = w\<lparr>hist := hist w @ [ev]\<rparr>"

text \<open>The events that are a run of the download tool.\<close>

fun is_run :: "event \<Rightarrow> bool" where
  "is_run (EvRun cmd cwd) = True"
| "is_run _ = False"

section \<open>The engine cache: get_model (lines 44-55)\<close>

text \<open>\<^verbatim>\<open>MODEL_CACHE[key]\<close> as an expression.\<close>

definition cache_getitem :: "world \<Rightarrow> key \<Rightarrow> exn + engine" where
  "cache_getitem w k =
     (case cache w k of None \<Rightarrow> Inl (Exn KeyError []) | Some m \<Rightarrow> Inr m)"

definition get_model :: "env \<Rightarrow> pystr \<Rightarrow> pystr \<Rightarrow> pystr \<Rightarrow> world \<Rightarrow> (exn + engine) \<times> world" where
  "get_model E model_name device compute_type w =
     (let k = (model_name, device, compute_type) in
      if cache w k = None then
        (case WhisperModel E (hist w) k of
           Some e \<Rightarrow> (Inl e, log_event (EvConstruct k) w)
         | None \<Rightarrow>
             (let w' = (log_event (EvConstruct k) w)
                         \<lparr>cache := (cache w)(k \<mapsto> Engine (next_obj w)), next_obj := Suc (next_obj w)\<rparr>
              in (cache_getitem w' k, w')))
      else (cache_getitem w k, w))"

text \<open>
  What holds of the cache in every world the program can reach (\<open>world0\<close> below has it,
  and \<open>get_model\<close> and \<open>transcribe\<close> keep it): the cached engines are objects that
  exist, and no object is cached under two keys.
\<close>

definition cache_ok :: "world \<Rightarrow> bool" where
  "cache_ok w \<longleftrightarrow>
     (\<forall>k e. cache w k = Some e \<longrightarrow> eid e < next_obj w) \<and>
     (\<forall>k k' e. cache w k = Some e \<longrightarrow> cache w k' = Some e \<longrightarrow> k = k')"

section \<open>The media resolver: download_youtube_audio (lines 58-124)\<close>

text \<open>The command line of the inner function \<^verbatim>\<open>run_yt_dlp\<close> and the text of the
  \<^verbatim>\<open>RuntimeError\<close> it raises on a non-zero exit code.\<close>

definition yt_dlp_cmd :: "env \<Rightarrow> pystr \<Rightarrow> pystr \<Rightarrow> pystr \<Rightarrow> pystr list" where
  "yt_dlp_cmd E fmt outtmpl url =
     [sys_executable E, ascii ''-m'', ascii ''yt_dlp'', ascii ''-f'', fmt, ascii ''-o'', outtmpl, url]"

definition yt_dlp_failure :: "proc \<Rightarrow> pystr" where
  "yt_dlp_failure p =
     [121, 116, 45, 100, 108, 112, 32, 19979, 36617, 22833, 25943, 32] @
     ascii ''(exit code '' @ str_int (returncode p) @ ascii ''):'' @ nl @ strip (stderr p)"

definition run_yt_dlp ::
  "env \<Rightarrow> pystr \<Rightarrow> pystr \<Rightarrow> pystr \<Rightarrow> pystr \<Rightarrow> world \<Rightarrow> (exn + unit) \<times> world" where
  "run_yt_dlp E url tmpdir outtmpl fmt w =
     (let cmd = yt_dlp_cmd E fmt outtmpl url;
          w' = log_event (EvRun cmd tmpdir) w
      in case subprocess_run E (hist w) cmd tmpdir of
           Inl e \<Rightarrow> (Inl e, w')
         | Inr p \<Rightarrow>
             if returncode p \<noteq> 0 then (Inl (Exn RuntimeError (yt_dlp_failure p)), w')
             else (Inr (), w'))"

text \<open>Lines 113-124: the first listed entry of the temporary directory that does not end in
  \<^verbatim>\<open>.part\<close> and is a regular file.\<close>

definition no_file_message :: pystr where
  "no_file_message =
     [121, 116, 45, 100, 108, 112, 32, 22238, 20659, 25104, 21151, 20294, 27794, 26377, 25214,
      21040, 19979, 36617, 24460, 30340, 27284, 26696, 12290]"

definition find_download :: "env \<Rightarrow> pystr \<Rightarrow> world \<Rightarrow> (exn + pystr) \<times> world" where
  "find_download E tmpdir w =
     (let files = filter (\<lambda>f. \<not> endswith f (ascii ''.part'') \<and> isfile E (hist w) f)
                    (glob_glob E (hist w) (path_join E tmpdir (ascii ''*'')))
      in case files of
           [] \<Rightarrow> (Inl (Exn RuntimeError no_file_message), w)
         | audio_path # _ \<Rightarrow> (Inr audio_path, w))"

definition tier1_format :: pystr where
  "tier1_format = ascii ''bestaudio[ext=m4a]/bestaudio/best''"

definition tier2_format :: pystr where
  "tier2_format = ascii ''best''"

definition download_youtube_audio :: "env \<Rightarrow> pystr \<Rightarrow> world \<Rightarrow> (exn + pystr) \<times> world" where
  "download_youtube_audio E url w =
     (let w0 = log_event (EvMkdtemp (ascii ''yt_audio_'')) w in
      case mkdtemp E (hist w) (ascii ''yt_audio_'') of
        Inl e \<Rightarrow> (Inl e, w0)
      | Inr tmpdir \<Rightarrow>
          (let outtmpl = path_join E tmpdir (ascii ''%(title)s.%(ext)s'') in
           case run_yt_dlp E url tmpdir outtmpl tier1_format w0 of
             (Inr _, w1) \<Rightarrow> find_download E tmpdir w1
           | (Inl e, w1) \<Rightarrow>
               if exn_class e = RuntimeError then
                 (let errors = [exn_str e] in
                  case run_yt_dlp E url tmpdir outtmpl tier2_format w1 of
                    (Inr _, w2) \<Rightarrow> find_download E tmpdir w2
                  | (Inl e2, w2) \<Rightarrow>
                      if exn_class e2 = RuntimeError
                      then (Inl (Exn RuntimeError (join (nl @ nl) (errors @ [exn_str e2]))), w2)
                      else (Inl e2, w2))
               else (Inl e, w1)))"

section \<open>The orchestrator: transcribe (lines 143-213)\<close>

record request =
  audio_file :: "media option"
  youtube_url :: pystr
  model_name :: pystr
  device :: pystr
  compute_type :: pystr
  language :: pystr
  task :: pystr
  beam_size :: int

text \<open>The returned tuple \<^verbatim>\<open>(transcript_text, txt_path, srt_path)\<close>.\<close>

type_synonym result = "pystr \<times> pystr option \<times> pystr option"

definition prompt_message :: pystr where
  "prompt_message =
     [35531, 20808, 19978, 20659, 27284, 26696, 25110, 36664, 20837, 32] @ ascii ''YouTube'' @
     [32, 36899, 32080, 12290]"

definition download_failed :: pystr where
  "download_failed = ascii ''YouTube'' @ [32, 19979, 36617, 22833, 25943, 65306, 10]"

definition load_failed :: pystr where
  "load_failed = [36617, 20837, 27169, 22411, 22833, 25943, 65306]"

definition inference_failed :: pystr where
  "inference_failed = [36681, 37636, 36942, 31243, 30332, 29983, 37679, 35492, 65306]"

text \<open>\<^verbatim>\<open>getattr(audio_file, "name", None)\<close>: a plain string has no such attribute.\<close>

definition getattr_name :: "media \<Rightarrow> pystr option" where
  "getattr_name f = (case f of Path p \<Rightarrow> None | Handle n \<Rightarrow> n)"

text \<open>Lines 162-171. \<open>Inl\<close> is the early return of a diagnostic, \<open>Inr\<close> the value of
  \<^verbatim>\<open>audio_path\<close>: \<^verbatim>\<open>x or y\<close> is \<open>x\<close> unless \<open>x\<close> is \<^verbatim>\<open>None\<close> or empty.\<close>

definition resolve_audio_path :: "env \<Rightarrow> request \<Rightarrow> world \<Rightarrow> (result + media) \<times> world" where
  "resolve_audio_path E r w =
     (case audio_file r of
        Some f \<Rightarrow>
          (Inr (case getattr_name f of
                  None \<Rightarrow> f
                | Some n \<Rightarrow> if n = [] then f else Path n), w)
      | None \<Rightarrow>
          (case download_youtube_audio E (strip (youtube_url r)) w of
             (Inl e, w') \<Rightarrow> (Inl (download_failed @ exn_str e, None, None), w')
           | (Inr p, w') \<Rightarrow> (Inr (Path p), w')))"

text \<open>Lines 193-197: the loop that consumes the segments, with its two accumulators.\<close>

fun consume :: "segment list \<Rightarrow> pystr list \<Rightarrow> segment list \<Rightarrow> pystr list \<times> segment list" where
  "consume [] lines seg_list = (lines, seg_list)"
| "consume (seg # rest) lines seg_list =
     consume rest (lines @ [strip (seg_text seg)]) (seg_list @ [seg])"

text \<open>Lines 202-213: the temporary directory and the two files. Nothing here is inside a
  \<^verbatim>\<open>try\<close>.\<close>

definition write_outputs :: "env \<Rightarrow> pystr \<Rightarrow> pystr \<Rightarrow> world \<Rightarrow> (exn + result) \<times> world" where
  "write_outputs E transcript_text srt_text w =
     (let w1 = log_event (EvMkdtemp (ascii ''transcript_'')) w in
      case mkdtemp E (hist w) (ascii ''transcript_'') of
        Inl e \<Rightarrow> (Inl e, w1)
      | Inr out_dir \<Rightarrow>
          (let txt_path = path_join E out_dir (ascii ''transcript.txt'');
               srt_path = path_join E out_dir (ascii ''subtitles.srt'');
               w2 = log_event (EvWrite txt_path transcript_text) w1
           in case write_file E (hist w1) txt_path transcript_text of
                Some e \<Rightarrow> (Inl e, w2)
              | None \<Rightarrow>
                  (let w3 = log_event (EvWrite srt_path srt_text) w2
                   in case write_file E (hist w2) srt_path srt_text of
                        Some e \<Rightarrow> (Inl e, w3)
                      | None \<Rightarrow> (Inr (transcript_text, Some txt_path, Some srt_path), w3))))"

text \<open>Lines 173-213, from the value of \<^verbatim>\<open>audio_path\<close> on. \<open>Inl\<close> is an exception
  that leaves \<^verbatim>\<open>transcribe\<close>, \<open>Inr\<close> the tuple it returns.\<close>

definition transcribe_path :: "env \<Rightarrow> request \<Rightarrow> media \<Rightarrow> world \<Rightarrow> (exn + result) \<times> world" where
  "transcribe_path E r audio_path w1 =
     (case get_model E (model_name r) (device r) (compute_type r) w1 of
        (Inl e, w2) \<Rightarrow> (Inr (load_failed @ exn_str e, None, None), w2)
      | (Inr model, w2) \<Rightarrow>
          (let lang_arg = (if language r = ascii ''auto'' then None else Some (language r));
               w3 = log_event (EvInfer model audio_path (beam_size r) lang_arg (task r)) w2
           in case model_transcribe E (hist w2) model audio_path (beam_size r) lang_arg (task r) of
                Inl e \<Rightarrow> (Inr (inference_failed @ exn_str e, None, None), w3)
              | Inr (segs, meta) \<Rightarrow>
                  (let (lines, seg_list) = consume (yielded segs) [] [] in
                   case failure segs of
                     Some e \<Rightarrow> (Inl e, w3)
                   | None \<Rightarrow>
                       (let transcript_text = strip (join nl lines) in
                        case build_srt seg_list of
                          Inl e \<Rightarrow> (Inl e, w3)
                        | Inr srt_text \<Rightarrow> write_outputs E transcript_text srt_text w3))))"

text \<open>The whole function.\<close>

definition transcribe :: "env \<Rightarrow> request \<Rightarrow> world \<Rightarrow> (exn + result) \<times> world" where
  "transcribe E r w =
     (if audio_file r = None \<and> strip (youtube_url r) = [] then (Inr (prompt_message, None, None), w)
      else
        case resolve_audio_path E r w of
          (Inl res, w1) \<Rightarrow> (Inr res, w1)
        | (Inr audio_path, w1) \<Rightarrow> transcribe_path E r audio_path w1)"

text \<open>The world when the module has just been loaded: an empty cache, nothing done yet.\<close>

definition world0 :: world where
  "world0 = \<lparr>cache = Map.empty, next_obj = 0, hist = []\<rparr>"

section \<open>Reading the output\<close>

text \<open>
  What the specification says of the strings produced, in its own terms: a field of a
  time stamp is a run of decimal digits with a value, and a subtitle text is a list of
  entries, one per segment, separated by an empty line and closed by one newline.
\<close>

definition is_digit :: "nat \<Rightarrow> bool" where
  "is_digit c \<longleftrightarrow> 48 \<le> c \<and> c \<le> 57"


text \<open>The time stamp of a segment's bound when \<open>format_timestamp\<close> returns one.\<close>

definition stamp :: "pyfloat option \<Rightarrow> pystr" where
  "stamp t = (case format_timestamp t of Inl e \<Rightarrow> [] | Inr s \<Rightarrow> s)"

definition renders :: "pyfloat option \<Rightarrow> bool" where
  "renders t = (case format_timestamp t of Inl e \<Rightarrow> False | Inr s \<Rightarrow> True)"

text \<open>The first two lines of entry \<open>i\<close>: its number, and its time stamps with the arrow.\<close>

definition srt_head :: "nat \<Rightarrow> segment \<Rightarrow> pystr" where
  "srt_head i seg =
     digits i @ nl @ stamp (seg_start seg) @ ascii '' --> '' @ stamp (seg_end seg)"

text \<open>The entries from number \<open>i\<close> on: the head, then the trimmed text on the next line.
  The last entry has no text line when its trimmed text is empty.\<close>

fun srt_entries :: "nat \<Rightarrow> segment list \<Rightarrow> pystr list" where
  "srt_entries i [] = []"
| "srt_entries i [seg] =
     [if strip (seg_text seg) = [] then srt_head i seg
      else srt_head i seg @ nl @ strip (seg_text seg)]"
| "srt_entries i (seg # seg' # segs) =
     (srt_head i seg @ nl @ strip (seg_text seg)) # srt_entries (Suc i) (seg' # segs)"

text \<open>The list the loop of \<open>build_srt\<close> builds when every time stamp renders: each entry
  with its text line, closed by a newline.\<close>

fun srt_blocks :: "nat \<Rightarrow> segment list \<Rightarrow> pystr list" where
  "srt_blocks i [] = []"
| "srt_blocks i (seg # segs) =
     (srt_head i seg @ nl @ strip (seg_text seg) @ nl) # srt_blocks (Suc i) segs"

definition srt_document :: "pystr list \<Rightarrow> pystr" where
  "srt_document entries = join (nl @ nl) entries @ nl"

section \<open>Concrete requests and environments\<close>

text \<open>
  The inputs at which the theorems below are evaluated. \<open>env_ok\<close> is a POSIX machine on
  which every call succeeds: the download leaves one file, the engine yields the two
  segments \<open>hello_world\<close>. The other environments differ from it in one answer.
\<close>

definition posix_join :: "pystr \<Rightarrow> pystr \<Rightarrow> pystr" where
  "posix_join a b = a @ [47] @ b"

text \<open>\<open>5404319552844595 / 2^52\<close> is the binary64 value of the literal \<^verbatim>\<open>1.2\<close>.\<close>

definition hello_world :: "segment list" where
  "hello_world =
     [\<lparr>seg_start = Some (Finite 0),
       seg_end = Some (Finite (5404319552844595 / 4503599627370496)),
       seg_text = ascii '' hello''\<rparr>,
      \<lparr>seg_start = Some (Finite (5404319552844595 / 4503599627370496)),
       seg_end = Some (Finite (5 / 2)),
       seg_text = ascii '' world''\<rparr>]"

definition env_ok :: env where
  "env_ok =
     \<lparr>sys_executable = ascii ''/usr/bin/python3'',
      path_join = posix_join,
      mkdtemp = (\<lambda>h prefix. Inr (ascii ''/tmp/'' @ prefix @ digits (length h))),
      subprocess_run = (\<lambda>h cmd cwd. Inr \<lparr>returncode = 0, stderr = []\<rparr>),
      glob_glob = (\<lambda>h pat. [butlast pat @ ascii ''clip.m4a'']),
      isfile = (\<lambda>h f. True),
      WhisperModel = (\<lambda>h k. None),
      model_transcribe = (\<lambda>h m a b l t.
        Inr (Segments hello_world None,
             \<lparr>language_detected = ascii ''en'', duration = Finite (5 / 2)\<rparr>)),
      write_file = (\<lambda>h p c. None)\<rparr>"

text \<open>A request with no file and a URL of two spaces and a tab; the other fields are the
  defaults of the user interface.\<close>

definition blank_request :: request where
  "blank_request =
     \<lparr>audio_file = None, youtube_url = [32, 32, 9], model_name = ascii ''small'',
      device = ascii ''cuda'', compute_type = ascii ''float16'', language = ascii ''auto'',
      task = ascii ''transcribe'', beam_size = 5\<rparr>"

text \<open>A request with an uploaded file given as a path string and no URL, and the same
  request with a URL as well.\<close>

definition talk_mp3 :: pystr where
  "talk_mp3 = ascii ''/home/u/talk.mp3''"

definition file_request :: request where
  "file_request = blank_request\<lparr>audio_file := Some (Path talk_mp3), youtube_url := []\<rparr>"

definition video_url :: pystr where
  "video_url = ascii ''https://www.youtube.com/watch?v=abc''"

text \<open>A machine on which constructing a model fails the first time it is tried for a key
  and succeeds from then on.\<close>

definition env_flaky :: env where
  "env_flaky =
     env_ok\<lparr>WhisperModel :=
       (\<lambda>h k. if EvConstruct k \<in> set h then None
              else Some (Exn OtherError (ascii ''CUDA driver version is insufficient'')))\<rparr>"

text \<open>Machines for the download: the first tier (the audio-only format) exits with 1;
  the second tier exits with 0 and leaves no file (\<open>env_tier2_empty\<close>), exits with 0 and
  leaves the file (\<open>env_tier2_file\<close>), or exits with 1 as well (\<open>env_both_fail\<close>).\<close>

definition forbidden :: pystr where
  "forbidden = ascii ''ERROR: HTTP Error 403: Forbidden''"

definition unavailable :: pystr where
  "unavailable = ascii ''ERROR: Video unavailable''"

definition env_tier2_file :: env where
  "env_tier2_file =
     env_ok\<lparr>subprocess_run :=
       (\<lambda>h cmd cwd. if cmd ! 4 = tier1_format then Inr \<lparr>returncode = 1, stderr = forbidden @ nl\<rparr>
                    else Inr \<lparr>returncode = 0, stderr = []\<rparr>)\<rparr>"

definition env_tier2_empty :: env where
  "env_tier2_empty = env_tier2_file\<lparr>glob_glob := (\<lambda>h pat. [])\<rparr>"

definition env_both_fail :: env where
  "env_both_fail =
     env_ok\<lparr>subprocess_run :=
       (\<lambda>h cmd cwd. if cmd ! 4 = tier1_format then Inr \<lparr>returncode = 1, stderr = forbidden @ nl\<rparr>
                    else Inr \<lparr>returncode = 1, stderr = unavailable @ nl\<rparr>)\<rparr>"

definition url_request :: request where
  "url_request = blank_request\<lparr>youtube_url := video_url\<rparr>"

definition yt_failed :: pystr where
  "yt_failed = [121, 116, 45, 100, 108, 112, 32, 19979, 36617, 22833, 25943, 32]"

text \<open>An engine that finds no speech (no segments); a disk that is full; an engine
  whose iterator raises after its first segment.\<close>

definition env_silent :: env where
  "env_silent =
     env_ok\<lparr>model_transcribe := (\<lambda>h m a b l t.
       Inr (Segments [] None, \<lparr>language_detected = ascii ''en'', duration = Finite (5 / 2)\<rparr>))\<rparr>"

definition env_disk_full :: env where
  "env_disk_full =
     env_ok\<lparr>write_file := (\<lambda>h p c. Some (Exn OSError (ascii ''[Errno 28] No space left on device'')))\<rparr>"

definition env_lazy_failure :: env where
  "env_lazy_failure =
     env_ok\<lparr>model_transcribe := (\<lambda>h m a b l t.
       Inr (Segments [hd hello_world] (Some (Exn RuntimeError (ascii ''CUDA out of memory''))),
            \<lparr>language_detected = ascii ''en'', duration = Finite (5 / 2)\<rparr>))\<rparr>"

section \<open>Evaluating the definitions on literals\<close>

lemma floor_rat_div_numeral:
  "\<lfloor>numeral a / numeral b :: rat\<rfloor> = numeral a div numeral b"
  "\<lfloor>- (numeral a / numeral b) :: rat\<rfloor> = - numeral a div numeral b"
  "\<lfloor>1 / numeral b :: rat\<rfloor> = 1 div numeral b"
  using floor_divide_of_int_eq [of "numeral a" "numeral b", where ?'a = rat]
    floor_divide_of_int_eq [of "- numeral a" "numeral b", where ?'a = rat]
    floor_divide_of_int_eq [of 1 "numeral b", where ?'a = rat]
  by simp_all

lemma ceiling_rat_div_numeral:
  "\<lceil>numeral a / numeral b :: rat\<rceil> = - (- numeral a div numeral b)"
  "\<lceil>1 / numeral b :: rat\<rceil> = - (- 1 div numeral b)"
  using floor_divide_of_int_eq [of "- numeral a" "numeral b", where ?'a = rat]
    floor_divide_of_int_eq [of "- 1" "numeral b", where ?'a = rat]
  by (simp_all add: ceiling_def)

lemma floor_minus_one_rat: "\<lfloor>- 1 :: rat\<rfloor> = - 1"
  using floor_of_int [of "- 1", where ?'a = rat] by simp

lemma bit_length_numeral:
  "bit_length 0 = 0"
  "bit_length 1 = 1"
  "bit_length (Suc 0) = 1"
  "bit_length (numeral (Num.Bit0 k)) = Suc (bit_length (numeral k))"
  "bit_length (numeral (Num.Bit1 k)) = Suc (bit_length (numeral k))"
proof -
  show "bit_length 0 = 0" by (simp add: bit_length.simps)
  show "bit_length 1 = 1" by (simp add: bit_length.simps)
  show "bit_length (Suc 0) = 1" by (simp add: bit_length.simps)
  have "numeral (Num.Bit0 k) div 2 = (numeral k :: nat)" by simp
  then show "bit_length (numeral (Num.Bit0 k)) = Suc (bit_length (numeral k))"
    by (subst bit_length.simps) simp
  have "numeral (Num.Bit1 k) div 2 = (numeral k :: nat)" by simp
  then show "bit_length (numeral (Num.Bit1 k)) = Suc (bit_length (numeral k))"
    by (subst bit_length.simps) simp
qed

lemma digits_numeral:
  "digits 0 = [48]"
  "digits (Suc 0) = [49]"
  "digits (numeral k) =
     (if numeral k < (10::nat) then [48 + numeral k]
      else digits (numeral k div 10) @ [48 + numeral k mod 10])"
  by (subst digits.simps, simp)+

lemma digits_small:
  "digits (Suc (Suc 0)) = [50]"
  "digits (Suc (Suc (Suc 0))) = [51]"
  "digits (Suc (Suc (Suc (Suc 0)))) = [52]"
  by (subst digits.simps, simp)+

lemma replicate_numeral_eval: "replicate (numeral k) x = x # replicate (pred_numeral k) x"
  by (simp add: numeral_eq_Suc)

lemmas fl_eval = floor_minus_one_rat fl64_def ilog2_def Let_def bit_length_numeral
  round_half_even_def power_int_def power_one_over floor_rat_div_numeral ceiling_rat_div_numeral

lemmas ts_eval = format_timestamp_def milliseconds_def fl_eval fmt_0d_def digits_numeral ascii_def
  replicate_numeral_eval

lemmas str_eval = ascii_def isspace_def strip_def lstrip_def rstrip_def nl_def

section \<open>Time stamps\<close>

subsection \<open>Decimal fields\<close>

lemma digits_nonempty: "digits n \<noteq> []"
  by (subst digits.simps) simp

lemma digits_all_digit: "list_all is_digit (digits n)"
proof (induction n rule: digits.induct)
  case (1 n)
  show ?case
  proof (cases "n < 10")
    case True
    then show ?thesis by (subst digits.simps) (simp add: is_digit_def)
  next
    case False
    have "n mod 10 < 10" by simp
    then have "is_digit (48 + n mod 10)" by (simp add: is_digit_def)
    then show ?thesis using False 1 by (subst digits.simps) simp
  qed
qed





lemma fmt_0d_nonneg:
  "0 \<le> i \<Longrightarrow> fmt_0d w i = replicate (w - length (digits (nat i))) 48 @ digits (nat i)"
  by (simp add: fmt_0d_def Let_def)





lemma round_half_even_near: "\<bar>of_int (round_half_even q) - q\<bar> \<le> 1 / 2"
proof -
  define f where "f = \<lfloor>q\<rfloor>"
  have "of_int f \<le> q" "q < of_int f + 1"
    unfolding f_def by linarith+
  then show ?thesis
    unfolding round_half_even_def Let_def f_def [symmetric]
    by (auto simp add: abs_if)
qed


lemma round_half_even_nonneg: "0 \<le> q \<Longrightarrow> 0 \<le> round_half_even q"
  by (auto simp add: round_half_even_def Let_def)




lemma bit_length_gt: "n < 2 ^ bit_length n"
proof (induction n rule: bit_length.induct)
  case (1 n)
  show ?case
  proof (cases "n = 0")
    case True
    then show ?thesis by simp
  next
    case False
    then have "n div 2 < 2 ^ bit_length (n div 2)" by (rule 1)
    then have "n < 2 * 2 ^ bit_length (n div 2)" by linarith
    then show ?thesis using False by (subst bit_length.simps) simp
  qed
qed

lemma bit_length_le: "0 < n \<Longrightarrow> 2 ^ (bit_length n - 1) \<le> n"
proof (induction n rule: bit_length.induct)
  case (1 n)
  then have n: "n \<noteq> 0" by simp
  show ?case
  proof (cases "n div 2 = 0")
    case True
    then have "bit_length (n div 2) = 0" by (simp add: bit_length.simps)
    then have "bit_length n = 1" using n by (subst bit_length.simps) simp
    then show ?thesis using "1.prems" by simp
  next
    case False
    then have ih: "2 ^ (bit_length (n div 2) - 1) \<le> n div 2"
      using 1 n by simp
    have pos: "0 < bit_length (n div 2)"
      using False by (subst bit_length.simps) simp
    have "bit_length n - 1 = Suc (bit_length (n div 2) - 1)"
      using n pos by (subst bit_length.simps) simp
    then have "2 ^ (bit_length n - 1) = 2 * 2 ^ (bit_length (n div 2) - 1)" by simp
    also have "\<dots> \<le> 2 * (n div 2)" using ih by simp
    also have "\<dots> \<le> n" by simp
    finally show ?thesis .
  qed
qed

lemma ilog2_le:
  assumes "0 < a"
  shows "2 powi ilog2 a \<le> a"
proof (cases "1 \<le> a")
  case True
  define n where "n = nat \<lfloor>a\<rfloor>"
  have n: "0 < n" using True by (simp add: n_def)
  have na: "of_nat n \<le> a"
    using True by (simp add: n_def)
  have bl: "0 < bit_length n"
    using n by (subst bit_length.simps) simp
  have "ilog2 a = int (bit_length n - 1)"
    using True bl by (simp add: ilog2_def n_def)
  then have "2 powi ilog2 a = (2::rat) ^ (bit_length n - 1)"
    by simp
  also have "\<dots> = of_nat (2 ^ (bit_length n - 1))" by simp
  also have "\<dots> \<le> of_nat n"
    using bit_length_le [OF n] by (simp only: of_nat_le_iff)
  finally show ?thesis using na by simp
next
  case False
  define k where "k = \<lceil>1 / a\<rceil>"
  define m where "m = nat (k - 1)"
  have "1 < 1 / a" using False assms by simp
  then have c: "2 \<le> k" unfolding k_def by linarith
  have km: "k = int (m + 1)"
    using c by (simp add: m_def)
  have "1 / a \<le> of_int k" unfolding k_def by simp
  also have "of_int k = (of_nat (m + 1) :: rat)"
    unfolding km by (simp only: of_int_of_nat_eq)
  also have "\<dots> \<le> of_nat (2 ^ bit_length m)"
    using bit_length_gt [of m] by (simp only: of_nat_le_iff)
  finally have "1 / a \<le> 2 ^ bit_length m" by simp
  then have "1 \<le> a * 2 ^ bit_length m"
    using assms by (simp add: field_simps)
  then have "1 / 2 ^ bit_length m \<le> a"
    by (simp add: field_simps)
  moreover have "ilog2 a = - int (bit_length m)"
    using False by (simp add: ilog2_def m_def k_def)
  ultimately show ?thesis
    by (simp add: power_int_minus field_simps)
qed

lemma fl64_finite_nonneg:
  assumes "0 \<le> q" and "q \<le> 2 ^ 1023"
  shows "\<exists>r. fl64 q = Finite r \<and> 0 \<le> r"
proof (cases "q = 0")
  case True
  then show ?thesis by (simp add: fl64_def)
next
  case False
  then have q: "0 < q" using assms(1) by simp
  define e where "e = max (ilog2 q) (- 1022)"
  define ulp :: rat where "ulp = 2 powi (e - 52)"
  define r where "r = of_int (round_half_even (q / ulp)) * ulp"
  have ulp: "0 < ulp" by (simp add: ulp_def)
  have "(2::rat) powi ilog2 q \<le> 2 powi 1023"
    using ilog2_le [OF q] assms(2) by simp
  then have "ilog2 q \<le> 1023"
    by (rule power_int_le_imp_le_exp [rotated]) simp_all
  then have "e - 52 \<le> 971" by (simp add: e_def)
  then have "ulp \<le> 2 powi 971"
    unfolding ulp_def by (intro power_int_increasing) simp_all
  then have ulp_le: "ulp \<le> 2 ^ 971" by simp
  have "0 \<le> q / ulp" using q ulp by simp
  then have m0: "0 \<le> round_half_even (q / ulp)" by (rule round_half_even_nonneg)
  then have r0: "0 \<le> r" using ulp by (simp add: r_def)
  have "of_int (round_half_even (q / ulp)) \<le> q / ulp + 1 / 2"
    using round_half_even_near [of "q / ulp"] by linarith
  then have "r \<le> (q / ulp + 1 / 2) * ulp"
    unfolding r_def using ulp by (intro mult_right_mono) simp_all
  also have "\<dots> = q + ulp / 2" using ulp by (simp add: field_simps)
  also have "\<dots> \<le> 2 ^ 1023 + 2 ^ 971 / 2" using assms(2) ulp_le by simp
  also have "\<dots> < 2 ^ 1024" by simp
  finally have "\<not> 2 powi 1024 \<le> r" by simp
  then have "fl64 q = Finite r"
    using q by (simp add: fl64_def Let_def e_def ulp_def r_def)
  then show ?thesis using r0 by blast
qed

lemma milliseconds_nonneg:
  assumes "0 \<le> x" and "x \<le> 10 ^ 300"
  shows "\<exists>ms. milliseconds (Some (Finite x)) = Inr ms \<and> 0 \<le> ms"
proof -
  have "x * 1000 \<le> 10 ^ 300 * 1000" using assms(2) by simp
  also have "\<dots> \<le> (2::rat) ^ 1023" by simp
  finally have "x * 1000 \<le> 2 ^ 1023" .
  moreover have "0 \<le> x * 1000" using assms(1) by simp
  ultimately obtain r where "fl64 (x * 1000) = Finite r" "0 \<le> r"
    using fl64_finite_nonneg by blast
  then show ?thesis
    by (simp add: milliseconds_def round_half_even_nonneg)
qed



section \<open>Subtitles\<close>

lemma digit_not_space: "is_digit c \<Longrightarrow> \<not> isspace c"
  by (auto simp add: is_digit_def isspace_def)

lemma isspace_nl [simp]: "isspace 10"
  by (simp add: isspace_def)

lemma lstrip_id: "s \<noteq> [] \<Longrightarrow> \<not> isspace (hd s) \<Longrightarrow> lstrip s = s"
  by (cases s) (simp_all add: lstrip_def)

lemma rstrip_keep: "ys \<noteq> [] \<Longrightarrow> \<not> isspace (last ys) \<Longrightarrow> rstrip (xs @ ys) = xs @ ys"
proof -
  assume a: "ys \<noteq> []" "\<not> isspace (last ys)"
  then have "rev ys \<noteq> []" "\<not> isspace (hd (rev ys))"
    by (simp_all add: hd_rev)
  then have "dropWhile isspace (rev ys @ rev xs) = rev ys @ rev xs"
    by (cases "rev ys") simp_all
  then show ?thesis by (simp add: rstrip_def)
qed

lemma rstrip_nl: "rstrip (xs @ nl) = rstrip xs"
  by (simp add: rstrip_def nl_def)

lemma rstrip_append: "rstrip ys \<noteq> [] \<Longrightarrow> rstrip (xs @ ys) = xs @ rstrip ys"
proof -
  assume "rstrip ys \<noteq> []"
  then have "dropWhile isspace (rev ys) \<noteq> []"
    by (simp add: rstrip_def)
  then obtain y where "y \<in> set (rev ys)" "\<not> isspace y"
    by (metis dropWhile_eq_Nil_conv)
  then have "dropWhile isspace (rev ys @ rev xs) = dropWhile isspace (rev ys) @ rev xs"
    by (intro dropWhile_append1) auto
  then show ?thesis by (simp add: rstrip_def)
qed

lemma strip_last: "strip s \<noteq> [] \<Longrightarrow> \<not> isspace (last (strip s))"
proof -
  assume a: "strip s \<noteq> []"
  define d where "d = dropWhile isspace (rev (lstrip s))"
  have s: "strip s = rev d" by (simp add: strip_def rstrip_def d_def)
  then have "d \<noteq> []" using a by simp
  then have "\<not> isspace (hd d)" unfolding d_def by (rule hd_dropWhile)
  then show ?thesis using s \<open>d \<noteq> []\<close> by (simp add: last_rev)
qed

lemma hd_digits: "is_digit (hd (digits n))"
  using digits_all_digit [of n] digits_nonempty [of n]
  by (cases "digits n") simp_all

lemma last_digits: "is_digit (last (digits n))"
  using digits_all_digit [of n] digits_nonempty [of n]
  by (simp add: list_all_iff)

lemma last_fmt_0d: "0 \<le> i \<Longrightarrow> is_digit (last (fmt_0d w i))"
  by (simp add: fmt_0d_nonneg digits_nonempty last_digits)

lemma stamp_renders:
  assumes "renders t"
  shows "format_timestamp t = Inr (stamp t)" and "stamp t \<noteq> []" and "is_digit (last (stamp t))"
proof -
  obtain ms where ms: "milliseconds t = Inr ms"
    using assms by (cases "milliseconds t") (simp_all add: renders_def format_timestamp_def)
  define r where "r = ms mod 3600000 mod 60000 mod 1000"
  have r: "0 \<le> r" by (simp add: r_def)
  obtain pre where f: "format_timestamp t = Inr (pre @ fmt_0d 3 r)"
    using ms by (simp add: format_timestamp_def Let_def r_def)
  then have st: "stamp t = pre @ fmt_0d 3 r" by (simp add: stamp_def)
  have ne: "fmt_0d 3 r \<noteq> []"
    using r by (simp add: fmt_0d_nonneg digits_nonempty)
  show "format_timestamp t = Inr (stamp t)" using f st by simp
  show "stamp t \<noteq> []" using st ne by simp
  show "is_digit (last (stamp t))" using st ne last_fmt_0d [OF r, of 3] by simp
qed

lemma srt_head_last: "renders (seg_end seg) \<Longrightarrow> \<not> isspace (last (srt_head i seg))"
  using stamp_renders(2,3) [of "seg_end seg"] by (simp add: srt_head_def digit_not_space)

lemma srt_head_nonempty: "srt_head i seg \<noteq> []"
  by (simp add: srt_head_def digits_nonempty)

lemma srt_head_hd: "\<not> isspace (hd (srt_head i seg))"
  using hd_digits [of i] digits_nonempty [of i] by (simp add: srt_head_def digit_not_space)

lemma srt_block_renders:
  assumes "renders (seg_start seg)" and "renders (seg_end seg)"
  shows "srt_block i seg = Inr (srt_head i seg @ nl @ strip (seg_text seg) @ nl)"
  using stamp_renders(1) [OF assms(1)] stamp_renders(1) [OF assms(2)]
  by (simp add: srt_block_def srt_head_def str_int_def)

lemma build_srt_loop_renders:
  assumes "list_all (\<lambda>seg. renders (seg_start seg) \<and> renders (seg_end seg)) segs"
  shows "build_srt_loop acc i segs = Inr (acc @ srt_blocks i segs)"
  using assms
proof (induction segs arbitrary: acc i)
  case Nil
  then show ?case by simp
next
  case (Cons seg segs)
  then show ?case by (simp add: srt_block_renders)
qed

lemma srt_entries_nonempty: "segs \<noteq> [] \<Longrightarrow> srt_entries i segs \<noteq> []"
  by (induction i segs rule: srt_entries.induct) simp_all

lemma join_nonempty: "xs \<noteq> [] \<Longrightarrow> hd xs \<noteq> [] \<Longrightarrow> join sep xs \<noteq> []"
  by (induction sep xs rule: join.induct) simp_all

lemma join_Cons: "xs \<noteq> [] \<Longrightarrow> join sep (x # xs) = x @ sep @ join sep xs"
  by (cases xs) simp_all

lemma hd_srt_entries: "segs \<noteq> [] \<Longrightarrow> hd (srt_entries i segs) \<noteq> []"
  by (induction i segs rule: srt_entries.induct) (simp_all add: srt_head_nonempty)

lemma rstrip_blocks:
  assumes "list_all (\<lambda>seg. renders (seg_start seg) \<and> renders (seg_end seg)) segs" and "segs \<noteq> []"
  shows "rstrip (join nl (srt_blocks i segs)) = join (nl @ nl) (srt_entries i segs)"
  using assms
proof (induction i segs rule: srt_entries.induct)
  case (1 i)
  then show ?case by simp
next
  case (2 i seg)
  then have e: "renders (seg_end seg)" by simp
  show ?case
  proof (cases "strip (seg_text seg) = []")
    case True
    have "rstrip ((srt_head i seg @ nl) @ nl) = rstrip (srt_head i seg @ nl)"
      by (rule rstrip_nl)
    also have "\<dots> = rstrip ([] @ srt_head i seg)"
      using rstrip_nl [of "srt_head i seg"] by simp
    also have "\<dots> = [] @ srt_head i seg"
      using srt_head_nonempty srt_head_last [OF e] by (rule rstrip_keep)
    finally show ?thesis using True by simp
  next
    case False
    have "rstrip ((srt_head i seg @ nl @ strip (seg_text seg)) @ nl) =
            rstrip ((srt_head i seg @ nl) @ strip (seg_text seg))"
      using rstrip_nl [of "srt_head i seg @ nl @ strip (seg_text seg)"] by simp
    also have "\<dots> = (srt_head i seg @ nl) @ strip (seg_text seg)"
      using False strip_last [OF False] by (rule rstrip_keep)
    finally show ?thesis using False by simp
  qed
next
  case (3 i seg seg' segs)
  let ?rest = "seg' # segs"
  have ih: "rstrip (join nl (srt_blocks (Suc i) ?rest)) = join (nl @ nl) (srt_entries (Suc i) ?rest)"
    using 3 by simp
  have ne: "join (nl @ nl) (srt_entries (Suc i) ?rest) \<noteq> []"
    by (intro join_nonempty srt_entries_nonempty hd_srt_entries) simp_all
  define X where "X = srt_head i seg @ nl @ strip (seg_text seg) @ nl @ nl"
  define J where "J = join nl (srt_blocks (Suc i) ?rest)"
  have J: "rstrip J = join (nl @ nl) (srt_entries (Suc i) ?rest)" "rstrip J \<noteq> []"
    using ih ne by (simp_all add: J_def)
  have "join nl (srt_blocks i (seg # ?rest)) = X @ J"
    by (simp add: X_def J_def)
  then have "rstrip (join nl (srt_blocks i (seg # ?rest))) = X @ rstrip J"
    using rstrip_append [OF J(2), of X] by simp
  moreover have "join (nl @ nl) (srt_entries i (seg # ?rest)) =
      (srt_head i seg @ nl @ strip (seg_text seg)) @ (nl @ nl) @ join (nl @ nl) (srt_entries (Suc i) ?rest)"
    using join_Cons [OF srt_entries_nonempty, of ?rest "nl @ nl" _ "Suc i"] by simp
  ultimately show ?case
    using J(1) by (simp add: X_def)
qed


lemma srt_blocks_hd:
  "segs \<noteq> [] \<Longrightarrow> join nl (srt_blocks i segs) \<noteq> [] \<and> \<not> isspace (hd (join nl (srt_blocks i segs)))"
proof (cases segs)
  case Nil
  assume "segs \<noteq> []"
  with Nil show ?thesis by simp
next
  case (Cons seg rest)
  obtain tl' where "join nl (srt_blocks i segs) = srt_head i seg @ tl'"
    using Cons by (cases rest) simp_all
  then show ?thesis
    using srt_head_nonempty [of i seg] srt_head_hd [of i seg] by simp
qed

lemma srt_entries_length: "length (srt_entries i segs) = length segs"
  by (induction i segs rule: srt_entries.induct) simp_all

lemma srt_entries_nth:
  "k < length segs \<Longrightarrow>
   srt_entries i segs ! k =
     srt_head (i + k) (segs ! k) @
     (if Suc k = length segs \<and> strip (seg_text (segs ! k)) = [] then []
      else nl @ strip (seg_text (segs ! k)))"
proof (induction i segs arbitrary: k rule: srt_entries.induct)
  case (1 i)
  then show ?case by simp
next
  case (2 i seg)
  then show ?case by simp
next
  case (3 i seg seg' segs)
  show ?case
  proof (cases k)
    case 0
    then show ?thesis by simp
  next
    case (Suc j)
    then show ?thesis using 3 by auto
  qed
qed

lemma renders_None: "renders None"
  by (simp add: renders_def ts_eval)

lemma renders_in_range: "0 \<le> x \<Longrightarrow> x \<le> 10 ^ 300 \<Longrightarrow> renders (Some (Finite x))"
  using milliseconds_nonneg [of x]
  by (auto simp add: renders_def format_timestamp_def Let_def)

text \<open>
  C4. When the time stamps of every segment render, \<open>build_srt\<close> returns the document of
  the entries of the segments: one entry per segment, in the order of the input, numbered
  from 1 without gaps; entry \<open>k+1\<close> is its number on a line, the line
  \<open>start --> end\<close> of the two time stamps, and the trimmed text on the next line; entries
  are separated by an empty line and the document ends with one newline. For no segment the
  document is that newline alone. The final \<^verbatim>\<open>strip()\<close> removes the text line of the last
  entry when its trimmed text is empty, so that the document never ends in an empty line.
  The time stamps in the heads are the strings \<open>format_timestamp\<close> returns.
\<close>

theorem build_srt_correct:
  assumes "list_all (\<lambda>seg. renders (seg_start seg) \<and> renders (seg_end seg)) segs"
  shows "build_srt segs = Inr (srt_document (srt_entries 1 segs)) \<and>
         length (srt_entries 1 segs) = length segs \<and>
         (\<forall>k<length segs.
            srt_entries 1 segs ! k =
              srt_head (Suc k) (segs ! k) @
              (if Suc k = length segs \<and> strip (seg_text (segs ! k)) = [] then []
               else nl @ strip (seg_text (segs ! k)))) \<and>
         (segs = [] \<longrightarrow> build_srt segs = Inr nl) \<and>
         (\<forall>k<length segs.
            format_timestamp (seg_start (segs ! k)) = Inr (stamp (seg_start (segs ! k))) \<and>
            format_timestamp (seg_end (segs ! k)) = Inr (stamp (seg_end (segs ! k))))"
proof -
  have stamps: "format_timestamp (seg_start (segs ! k)) = Inr (stamp (seg_start (segs ! k))) \<and>
                format_timestamp (seg_end (segs ! k)) = Inr (stamp (seg_end (segs ! k)))"
    if "k < length segs" for k
    using assms that stamp_renders(1) by (simp add: list_all_length)
  have loop: "build_srt_loop [] 1 segs = Inr (srt_blocks 1 segs)"
    using build_srt_loop_renders [OF assms, of "[]" 1] by simp
  have doc: "strip (join nl (srt_blocks 1 segs)) = join (nl @ nl) (srt_entries 1 segs)"
  proof (cases "segs = []")
    case True
    then show ?thesis by (simp add: strip_def lstrip_def rstrip_def)
  next
    case False
    have "lstrip (join nl (srt_blocks 1 segs)) = join nl (srt_blocks 1 segs)"
      using srt_blocks_hd [OF False, of 1] by (simp add: lstrip_id)
    then show ?thesis
      using rstrip_blocks [OF assms False, of 1] by (simp add: strip_def)
  qed
  have b: "build_srt segs = Inr (srt_document (srt_entries 1 segs))"
    using loop doc by (simp add: build_srt_def srt_document_def)
  have "build_srt [] = Inr nl"
    by (simp add: build_srt_def strip_def lstrip_def rstrip_def)
  then have e: "segs = [] \<longrightarrow> build_srt segs = Inr nl"
    by simp
  from b e stamps srt_entries_length [of 1 segs] srt_entries_nth [of _ segs 1] show ?thesis
    by simp
qed

theorem build_srt_correct_witness:
  "list_all (\<lambda>seg. renders (seg_start seg) \<and> renders (seg_end seg)) hello_world \<and>
   build_srt hello_world = Inr (srt_document (srt_entries 1 hello_world)) \<and>
   length (srt_entries 1 hello_world) = 2 \<and>
   srt_document (srt_entries 1 hello_world) =
     ascii ''1'' @ nl @ ascii ''00:00:00,000 --> 00:00:01,200'' @ nl @ ascii ''hello'' @ nl @ nl @
     ascii ''2'' @ nl @ ascii ''00:00:01,200 --> 00:00:02,500'' @ nl @ ascii ''world'' @ nl"
proof -
  have a: "list_all (\<lambda>seg. renders (seg_start seg) \<and> renders (seg_end seg)) hello_world"
    by (simp add: hello_world_def renders_in_range)
  have d: "srt_document (srt_entries 1 hello_world) =
     ascii ''1'' @ nl @ ascii ''00:00:00,000 --> 00:00:01,200'' @ nl @ ascii ''hello'' @ nl @ nl @
     ascii ''2'' @ nl @ ascii ''00:00:01,200 --> 00:00:02,500'' @ nl @ ascii ''world'' @ nl"
    by (simp add: srt_document_def srt_head_def stamp_def hello_world_def ts_eval str_eval
        digits_small)
  have l: "length hello_world = 2"
    by (simp add: hello_world_def)
  from build_srt_correct [OF a] a d l show ?thesis
    by simp
qed

text \<open>A single segment of white space only: the entry has no text line.\<close>

lemma build_srt_blank_text:
  "build_srt [\<lparr>seg_start = None, seg_end = None, seg_text = [32, 32]\<rparr>] =
     Inr (ascii ''1'' @ nl @ ascii ''00:00:00,000 --> 00:00:00,000'' @ nl)"
  by (simp add: build_srt_def srt_block_def ts_eval str_int_def str_eval)

section \<open>Requests without a source\<close>

text \<open>
  C7. When no file is given and the URL is empty or only white space, \<open>transcribe\<close>
  returns at once: the text is the (non-empty) prompt, both paths are \<^verbatim>\<open>None\<close>, and
  the world is the one it started in, so nothing was downloaded, constructed or run (each
  of these would add an event to the history, and a construction an entry to the cache).
\<close>

theorem transcribe_without_source:
  assumes "audio_file r = None" and "strip (youtube_url r) = []"
  shows "transcribe E r w = (Inr (prompt_message, None, None), w) \<and> prompt_message \<noteq> []"
  using assms by (simp add: transcribe_def prompt_message_def)

theorem transcribe_without_source_witness:
  "audio_file blank_request = None \<and> strip (youtube_url blank_request) = [] \<and>
   transcribe env_ok blank_request world0 = (Inr (prompt_message, None, None), world0) \<and>
   prompt_message \<noteq> []"
proof -
  have a: "audio_file blank_request = None"
    by (simp add: blank_request_def)
  have b: "strip (youtube_url blank_request) = []"
    by (simp add: blank_request_def str_eval)
  from transcribe_without_source [OF a b, of env_ok world0] a b show ?thesis
    by simp
qed

section \<open>Which calls add which events\<close>

lemma hist_log_event [simp]: "hist (log_event ev w) = hist w @ [ev]"
  by (simp add: log_event_def)

lemma cache_log_event [simp]: "cache (log_event ev w) = cache w"
  by (simp add: log_event_def)

lemma next_obj_log_event [simp]: "next_obj (log_event ev w) = next_obj w"
  by (simp add: log_event_def)

lemma consume_eq:
  "consume segs lines seg_list = (lines @ map (\<lambda>seg. strip (seg_text seg)) segs, seg_list @ segs)"
  by (induction segs arbitrary: lines seg_list) simp_all

lemma runs_get_model:
  "filter is_run (hist (snd (get_model E m d c w))) = filter is_run (hist w)"
  by (simp add: get_model_def Let_def split: option.splits)

lemma runs_write_outputs:
  "filter is_run (hist (snd (write_outputs E t s w))) = filter is_run (hist w)"
  by (simp add: write_outputs_def Let_def split: sum.splits option.splits)

lemma resolve_file:
  "audio_file r = Some f \<Longrightarrow>
   resolve_audio_path E r w =
     (Inr (case getattr_name f of None \<Rightarrow> f | Some n \<Rightarrow> if n = [] then f else Path n), w)"
  by (simp add: resolve_audio_path_def)

lemma runs_transcribe_path:
  "filter is_run (hist (snd (transcribe_path E r a w))) = filter is_run (hist w)"
proof -
  obtain g w2 where g: "get_model E (model_name r) (device r) (compute_type r) w = (g, w2)"
    by (cases "get_model E (model_name r) (device r) (compute_type r) w")
  have w2: "filter is_run (hist w2) = filter is_run (hist w)"
    using runs_get_model [of E "model_name r" "device r" "compute_type r" w] g by simp
  show ?thesis
    using g w2
    by (simp add: transcribe_path_def Let_def runs_write_outputs
        split: sum.splits prod.splits option.splits)
qed

lemma transcribe_file:
  "audio_file r = Some f \<Longrightarrow>
   transcribe E r w =
     transcribe_path E r (case getattr_name f of None \<Rightarrow> f | Some n \<Rightarrow> if n = [] then f else Path n) w"
  by (simp add: transcribe_def resolve_file)

lemma transcribe_path_url [simp]:
  "transcribe_path E (r\<lparr>youtube_url := u\<rparr>) a w = transcribe_path E r a w"
  by (simp add: transcribe_path_def Let_def split: prod.splits sum.splits option.splits)

lemma runs_transcribe_file:
  assumes "audio_file r = Some f"
  shows "filter is_run (hist (snd (transcribe E r w))) = filter is_run (hist w)"
  by (simp add: transcribe_file [OF assms] runs_transcribe_path)

section \<open>Local files\<close>

text \<open>
  C8. When the request's file is a path string, or an upload object whose name is a
  non-empty string, the resolution step (lines 162-168) yields that very path and leaves
  the world as it was, whatever the environment answers: the download tool is not run and
  the path is not looked up on disk. Over the whole of \<open>transcribe\<close> no run of the download
  tool is added to the history either.
\<close>

theorem local_path_unchanged:
  assumes "audio_file r = Some f" and "f = Path p \<or> (f = Handle (Some p) \<and> p \<noteq> [])"
  shows "resolve_audio_path E r w = (Inr (Path p), w) \<and>
         filter is_run (hist (snd (transcribe E r w))) = filter is_run (hist w)"
  using assms runs_transcribe_file [OF assms(1), of E w]
  by (auto simp add: resolve_audio_path_def getattr_name_def)

theorem local_path_unchanged_witness:
  "audio_file file_request = Some (Path talk_mp3) \<and>
   resolve_audio_path env_ok file_request world0 = (Inr (Path talk_mp3), world0) \<and>
   filter is_run (hist (snd (transcribe env_ok file_request world0))) = []"
proof -
  have a: "audio_file file_request = Some (Path talk_mp3)"
    by (simp add: file_request_def)
  from local_path_unchanged [OF a, of talk_mp3 env_ok world0] a show ?thesis
    by (simp add: world0_def)
qed

section \<open>The engine cache\<close>

lemma cache_ok_world0: "cache_ok world0"
  by (simp add: cache_ok_def world0_def)

lemma get_model_hit:
  "cache w (m, d, c) = Some e \<Longrightarrow> get_model E m d c w = (Inr e, w)"
  by (simp add: get_model_def cache_getitem_def)

lemma get_model_miss_ok:
  "cache w (m, d, c) = None \<Longrightarrow> WhisperModel E (hist w) (m, d, c) = None \<Longrightarrow>
   get_model E m d c w =
     (Inr (Engine (next_obj w)),
      (log_event (EvConstruct (m, d, c)) w)
        \<lparr>cache := (cache w)((m, d, c) \<mapsto> Engine (next_obj w)), next_obj := Suc (next_obj w)\<rparr>)"
  by (simp add: get_model_def cache_getitem_def Let_def)

lemma get_model_miss_fail:
  "cache w (m, d, c) = None \<Longrightarrow> WhisperModel E (hist w) (m, d, c) = Some e \<Longrightarrow>
   get_model E m d c w = (Inl e, log_event (EvConstruct (m, d, c)) w)"
  by (simp add: get_model_def)

lemma get_model_cases:
  obtains (hit) e where "cache w (m, d, c) = Some e" "get_model E m d c w = (Inr e, w)"
  | (constructed) "cache w (m, d, c) = None" "WhisperModel E (hist w) (m, d, c) = None"
      "get_model E m d c w =
        (Inr (Engine (next_obj w)),
         (log_event (EvConstruct (m, d, c)) w)
           \<lparr>cache := (cache w)((m, d, c) \<mapsto> Engine (next_obj w)), next_obj := Suc (next_obj w)\<rparr>)"
  | (failed) e where "cache w (m, d, c) = None" "WhisperModel E (hist w) (m, d, c) = Some e"
      "get_model E m d c w = (Inl e, log_event (EvConstruct (m, d, c)) w)"
proof (cases "cache w (m, d, c)")
  case (Some e)
  then show ?thesis using hit get_model_hit by blast
next
  case None
  show ?thesis
  proof (cases "WhisperModel E (hist w) (m, d, c)")
    case None': None
    then show ?thesis using constructed None get_model_miss_ok by blast
  next
    case (Some e)
    then show ?thesis using failed None get_model_miss_fail by blast
  qed
qed

lemma cache_ok_bound: "cache_ok w \<Longrightarrow> cache w k = Some e \<Longrightarrow> eid e < next_obj w"
  unfolding cache_ok_def by blast

lemma cache_ok_inj: "cache_ok w \<Longrightarrow> cache w k = Some e \<Longrightarrow> cache w k' = Some e \<Longrightarrow> k = k'"
  unfolding cache_ok_def by blast

lemma cache_ok_fresh: "cache_ok w \<Longrightarrow> cache w k \<noteq> Some (Engine (next_obj w))"
  using cache_ok_bound [of w k "Engine (next_obj w)"] by auto

lemma cache_ok_insert:
  assumes "cache_ok w"
  shows "cache_ok (w'\<lparr>cache := (cache w)(k \<mapsto> Engine (next_obj w)), next_obj := Suc (next_obj w)\<rparr>)"
proof -
  have fresh: "cache w k' \<noteq> Some (Engine (next_obj w))" for k'
    using assms by (rule cache_ok_fresh)
  have bound: "eid e < Suc (next_obj w)" if "cache w k' = Some e" for k' e
    using cache_ok_bound [OF assms that] by simp
  have inj: "k1 = k2" if "cache w k1 = Some e" "cache w k2 = Some e" for k1 k2 e
    using cache_ok_inj [OF assms that] .
  show ?thesis
    unfolding cache_ok_def using fresh bound inj
    by (auto split: if_splits)
qed

lemma cache_ok_get_model:
  assumes "cache_ok w"
  shows "cache_ok (snd (get_model E m d c w))"
proof (cases rule: get_model_cases [of w m d c E])
  case (hit e)
  then show ?thesis using assms by simp
next
  case constructed
  then show ?thesis using cache_ok_insert [OF assms] by simp
next
  case (failed e)
  then show ?thesis using assms by (simp add: cache_ok_def)
qed

text \<open>The rest of the program leaves the cache and the object counter alone, so
  \<open>transcribe\<close> keeps the cache sound.\<close>

lemma cache_ok_frame:
  "cache w' = cache w \<Longrightarrow> next_obj w' = next_obj w \<Longrightarrow> cache_ok w' = cache_ok w"
  by (simp add: cache_ok_def)

lemma frame_run_yt_dlp:
  "cache (snd (run_yt_dlp E url tmpdir outtmpl fmt w)) = cache w \<and>
   next_obj (snd (run_yt_dlp E url tmpdir outtmpl fmt w)) = next_obj w"
  by (simp add: run_yt_dlp_def Let_def split: sum.splits)

lemma frame_find_download: "snd (find_download E tmpdir w) = w"
  by (simp add: find_download_def Let_def split: list.splits)

lemma frame_download:
  "cache (snd (download_youtube_audio E url w)) = cache w \<and>
   next_obj (snd (download_youtube_audio E url w)) = next_obj w"
proof (cases "mkdtemp E (hist w) (ascii ''yt_audio_'')")
  case (Inl e)
  then show ?thesis by (simp add: download_youtube_audio_def)
next
  case (Inr tmpdir)
  let ?w0 = "log_event (EvMkdtemp (ascii ''yt_audio_'')) w"
  let ?out = "path_join E tmpdir (ascii ''%(title)s.%(ext)s'')"
  obtain x1 w1 where r1: "run_yt_dlp E url tmpdir ?out tier1_format ?w0 = (x1, w1)"
    by (cases "run_yt_dlp E url tmpdir ?out tier1_format ?w0")
  have w1: "cache w1 = cache w \<and> next_obj w1 = next_obj w"
    using frame_run_yt_dlp [of E url tmpdir ?out tier1_format ?w0] r1 by simp
  obtain x2 w2 where r2: "run_yt_dlp E url tmpdir ?out tier2_format w1 = (x2, w2)"
    by (cases "run_yt_dlp E url tmpdir ?out tier2_format w1")
  have w2: "cache w2 = cache w \<and> next_obj w2 = next_obj w"
    using frame_run_yt_dlp [of E url tmpdir ?out tier2_format w1] r2 w1 by simp
  have d: "download_youtube_audio E url w =
             (case x1 of
                Inr u \<Rightarrow> find_download E tmpdir w1
              | Inl e \<Rightarrow>
                  if exn_class e = RuntimeError then
                    (case x2 of
                       Inr u \<Rightarrow> find_download E tmpdir w2
                     | Inl e2 \<Rightarrow>
                         if exn_class e2 = RuntimeError
                         then (Inl (Exn RuntimeError (join (nl @ nl) ([exn_str e] @ [exn_str e2]))), w2)
                         else (Inl e2, w2))
                  else (Inl e, w1))"
    using Inr r1 r2 by (cases x1) (simp_all add: download_youtube_audio_def Let_def)
  show ?thesis
    unfolding d using w1 w2
    by (cases x1; cases x2) (simp_all add: frame_find_download)
qed


lemma frame_write_outputs:
  "cache (snd (write_outputs E t s w)) = cache w \<and>
   next_obj (snd (write_outputs E t s w)) = next_obj w"
  by (simp add: write_outputs_def Let_def split: sum.splits option.splits)

lemma frame_resolve_audio_path:
  "cache (snd (resolve_audio_path E r w)) = cache w \<and>
   next_obj (snd (resolve_audio_path E r w)) = next_obj w"
proof (cases "audio_file r")
  case None
  obtain x w' where d: "download_youtube_audio E (strip (youtube_url r)) w = (x, w')"
    by (cases "download_youtube_audio E (strip (youtube_url r)) w")
  then have "cache w' = cache w \<and> next_obj w' = next_obj w"
    using frame_download [of E "strip (youtube_url r)" w] by simp
  then show ?thesis
    using None d by (cases x) (simp_all add: resolve_audio_path_def)
next
  case (Some f)
  then show ?thesis by (simp add: resolve_audio_path_def)
qed


lemma cache_ok_transcribe_path:
  assumes "cache_ok w"
  shows "cache_ok (snd (transcribe_path E r a w))"
proof -
  obtain g w2 where g: "get_model E (model_name r) (device r) (compute_type r) w = (g, w2)"
    by (cases "get_model E (model_name r) (device r) (compute_type r) w")
  have ok2: "cache_ok w2"
    using cache_ok_get_model [OF assms, of E "model_name r" "device r" "compute_type r"] g by simp
  show ?thesis
  proof (cases g)
    case (Inl e)
    then show ?thesis using g ok2 by (simp add: transcribe_path_def)
  next
    case (Inr m)
    define lang where "lang = (if language r = ascii ''auto'' then None else Some (language r))"
    define w3 where "w3 = log_event (EvInfer m a (beam_size r) lang (task r)) w2"
    have ok3: "cache_ok w3"
      using ok2 cache_ok_frame [of w3 w2] by (simp add: w3_def)
    have ok4: "cache_ok (snd (write_outputs E t s w3))" for t s
      using ok3 frame_write_outputs [of E t s w3] cache_ok_frame [of "snd (write_outputs E t s w3)" w3]
      by simp
    show ?thesis
    proof (cases "model_transcribe E (hist w2) m a (beam_size r) lang (task r)")
      case (Inl e)
      then show ?thesis
        using g Inr ok3 by (simp add: transcribe_path_def Let_def lang_def w3_def)
    next
      case out: (Inr sm)
      obtain segs meta where sm: "sm = (segs, meta)" by (cases sm)
      show ?thesis
      proof (cases "failure segs")
        case None
        show ?thesis
        proof (cases "build_srt (yielded segs)")
          case (Inl e)
          then show ?thesis
            using g Inr out sm None ok3
            by (simp add: transcribe_path_def Let_def consume_eq lang_def w3_def)
        next
          case srt: (Inr srt_text)
          then show ?thesis
            using g \<open>g = Inr m\<close> out sm None ok4
            by (simp add: transcribe_path_def Let_def consume_eq lang_def w3_def)
        qed
      next
        case (Some e)
        then show ?thesis
          using g Inr out sm ok3
          by (simp add: transcribe_path_def Let_def consume_eq lang_def w3_def)
      qed
    qed
  qed
qed

lemma cache_ok_transcribe:
  assumes "cache_ok w"
  shows "cache_ok (snd (transcribe E r w))"
proof (cases "audio_file r = None \<and> strip (youtube_url r) = []")
  case True
  then show ?thesis using assms by (simp add: transcribe_def)
next
  case False
  obtain x w1 where x: "resolve_audio_path E r w = (x, w1)"
    by (cases "resolve_audio_path E r w")
  have "cache w1 = cache w \<and> next_obj w1 = next_obj w"
    using x frame_resolve_audio_path [of E r w] by simp
  then have ok1: "cache_ok w1"
    using assms cache_ok_frame [of w1 w] by simp
  have t: "transcribe E r w =
             (case x of Inl res \<Rightarrow> (Inr res, w1) | Inr a \<Rightarrow> transcribe_path E r a w1)"
    using False x by (auto simp add: transcribe_def)
  show ?thesis
    unfolding t using ok1 cache_ok_transcribe_path [OF ok1]
    by (cases x) simp_all
qed

text \<open>
  C6. In a world with a sound cache: when \<open>get_model\<close> returns an engine \<open>e\<close> for a
  key, the engine is in the cache under that key in the world it leaves, and a second call
  with the same key returns the same \<open>e\<close> and leaves the world untouched (no construction:
  that would add an event). A call with another key that returns an engine returns a
  different one, and \<open>e\<close> stays cached. On a miss the engine returned is a new object,
  cached under no key before, and the call added exactly the construction to the history.
\<close>

theorem engine_cache_identity:
  assumes "cache_ok w" and "get_model E m d c w = (Inr e, w1)"
  shows "get_model E m d c w1 = (Inr e, w1) \<and>
         cache w1 (m, d, c) = Some e \<and>
         cache_ok w1 \<and>
         (cache w (m, d, c) = None \<longrightarrow>
            e \<notin> ran (cache w) \<and> hist w1 = hist w @ [EvConstruct (m, d, c)]) \<and>
         (\<forall>m' d' c' e' w2.
            (m', d', c') \<noteq> (m, d, c) \<longrightarrow> get_model E m' d' c' w1 = (Inr e', w2) \<longrightarrow>
            e' \<noteq> e \<and> cache w2 (m, d, c) = Some e)"
proof -
  have cached: "cache w1 (m, d, c) = Some e"
    using assms(2) by (cases rule: get_model_cases [of w m d c E]) auto
  have ok1: "cache_ok w1"
    using cache_ok_get_model [OF assms(1), of E m d c] assms(2) by simp
  have again: "get_model E m d c w1 = (Inr e, w1)"
    using cached by (rule get_model_hit)
  have miss: "e \<notin> ran (cache w) \<and> hist w1 = hist w @ [EvConstruct (m, d, c)]"
    if "cache w (m, d, c) = None"
  proof (cases rule: get_model_cases [of w m d c E])
    case (hit e0)
    then show ?thesis using that by simp
  next
    case constructed
    then have e: "e = Engine (next_obj w)" and h: "hist w1 = hist w @ [EvConstruct (m, d, c)]"
      using assms(2) by auto
    have "cache w k \<noteq> Some (Engine (next_obj w))" for k
      using assms(1) by (rule cache_ok_fresh)
    then show ?thesis using e h by (auto simp add: ran_def)
  next
    case (failed e0)
    then show ?thesis using assms(2) by simp
  qed
  have other: "e' \<noteq> e \<and> cache w2 (m, d, c) = Some e"
    if ne: "(m', d', c') \<noteq> (m, d, c)" and g: "get_model E m' d' c' w1 = (Inr e', w2)"
    for m' d' c' e' w2
  proof (cases rule: get_model_cases [of w1 m' d' c' E])
    case (hit e0)
    then have "e' = e0" "w2 = w1" using g by auto
    then show ?thesis using hit(1) cached ne cache_ok_inj [OF ok1, of "(m', d', c')" e "(m, d, c)"] by auto
  next
    case constructed
    then have e': "e' = Engine (next_obj w1)"
      and w2: "cache w2 = (cache w1)((m', d', c') \<mapsto> Engine (next_obj w1))"
      using g by auto
    have "eid e < next_obj w1"
      using ok1 cached by (rule cache_ok_bound)
    then show ?thesis using e' w2 ne cached by auto
  next
    case (failed e0)
    then show ?thesis using g by simp
  qed
  from again cached ok1 miss other show ?thesis by blast
qed

theorem engine_cache_identity_witness:
  "cache_ok world0 \<and>
   fst (get_model env_ok (ascii ''small'') (ascii ''cuda'') (ascii ''float16'') world0) = Inr (Engine 0) \<and>
   fst (get_model env_ok (ascii ''small'') (ascii ''cuda'') (ascii ''float16'')
          (snd (get_model env_ok (ascii ''small'') (ascii ''cuda'') (ascii ''float16'') world0)))
     = Inr (Engine 0) \<and>
   fst (get_model env_ok (ascii ''tiny'') (ascii ''cuda'') (ascii ''float16'')
          (snd (get_model env_ok (ascii ''small'') (ascii ''cuda'') (ascii ''float16'') world0)))
     = Inr (Engine 1)"
proof -
  let ?g = "get_model env_ok (ascii ''small'') (ascii ''cuda'') (ascii ''float16'') world0"
  have g1: "fst ?g = Inr (Engine 0)"
    by (simp add: get_model_def cache_getitem_def Let_def world0_def env_ok_def)
  then have g: "?g = (Inr (Engine 0), snd ?g)"
    by (metis prod.collapse)
  have t: "fst (get_model env_ok (ascii ''tiny'') (ascii ''cuda'') (ascii ''float16'') (snd ?g))
             = Inr (Engine 1)"
    by (simp add: get_model_def cache_getitem_def Let_def world0_def env_ok_def ascii_def)
  have again: "fst (get_model env_ok (ascii ''small'') (ascii ''cuda'') (ascii ''float16'') (snd ?g))
                 = Inr (Engine 0)"
    using engine_cache_identity [OF cache_ok_world0 g] by simp
  from g1 t again cache_ok_world0 show ?thesis
    by blast
qed

text \<open>
  C9. When the key is not cached and the constructor raises \<open>e\<close>, \<open>get_model\<close> raises
  \<open>e\<close> and leaves the cache as it was, so the key is still absent; \<open>transcribe\<close> then
  returns the model-loading diagnostic with no paths. The next call with the same key calls
  the constructor again (the history gains a second construction), and returns the new
  engine if the constructor succeeds this time.
\<close>

theorem failed_construction_not_cached:
  assumes "k = (model_name r, device r, compute_type r)"
    and "cache w k = None"
    and "WhisperModel E (hist w) k = Some e"
    and "w' = snd (get_model E (model_name r) (device r) (compute_type r) w)"
  shows "fst (get_model E (model_name r) (device r) (compute_type r) w) = Inl e \<and>
         cache w' = cache w \<and> cache w' k = None \<and>
         transcribe_path E r a w = (Inr (load_failed @ exn_str e, None, None), w') \<and>
         hist (snd (get_model E (model_name r) (device r) (compute_type r) w')) =
           hist w @ [EvConstruct k, EvConstruct k] \<and>
         (WhisperModel E (hist w') k = None \<longrightarrow>
            fst (get_model E (model_name r) (device r) (compute_type r) w') = Inr (Engine (next_obj w)))"
proof -
  have g: "get_model E (model_name r) (device r) (compute_type r) w = (Inl e, log_event (EvConstruct k) w)"
    using assms(1-3) get_model_miss_fail by simp
  then have w': "w' = log_event (EvConstruct k) w"
    using assms(4) by simp
  have miss': "cache w' (model_name r, device r, compute_type r) = None"
    using w' assms(1,2) by simp
  have h2: "hist (snd (get_model E (model_name r) (device r) (compute_type r) w')) =
              hist w @ [EvConstruct k, EvConstruct k]"
    using miss' w' assms(1)
    by (cases "WhisperModel E (hist w') (model_name r, device r, compute_type r)")
       (simp_all add: get_model_miss_ok get_model_miss_fail)
  have retry: "fst (get_model E (model_name r) (device r) (compute_type r) w') = Inr (Engine (next_obj w))"
    if "WhisperModel E (hist w') k = None"
    using that miss' w' assms(1) by (simp add: get_model_miss_ok)
  have t: "transcribe_path E r a w = (Inr (load_failed @ exn_str e, None, None), w')"
    using g w' by (simp add: transcribe_path_def)
  from g w' miss' h2 retry t assms(1) show ?thesis by simp
qed

theorem failed_construction_not_cached_witness:
  "cache world0 (model_name file_request, device file_request, compute_type file_request) = None \<and>
   WhisperModel env_flaky (hist world0)
     (model_name file_request, device file_request, compute_type file_request) \<noteq> None \<and>
   fst (transcribe env_flaky file_request world0) =
     Inr (load_failed @ ascii ''CUDA driver version is insufficient'', None, None) \<and>
   cache (snd (transcribe env_flaky file_request world0)) = cache world0 \<and>
   fst (get_model env_flaky (model_name file_request) (device file_request) (compute_type file_request)
          (snd (get_model env_flaky (model_name file_request) (device file_request)
                  (compute_type file_request) world0))) = Inr (Engine 0)"
proof -
  let ?k = "(model_name file_request, device file_request, compute_type file_request)"
  let ?e = "Exn OtherError (ascii ''CUDA driver version is insufficient'')"
  let ?w' = "snd (get_model env_flaky (model_name file_request) (device file_request)
                    (compute_type file_request) world0)"
  have a: "cache world0 ?k = None"
    by (simp add: world0_def)
  have b: "WhisperModel env_flaky (hist world0) ?k = Some ?e"
    by (simp add: env_flaky_def env_ok_def world0_def)
  have w': "?w' = log_event (EvConstruct ?k) world0"
    using get_model_miss_fail [of world0 "model_name file_request" "device file_request"
        "compute_type file_request" env_flaky ?e] a b by simp
  have c: "WhisperModel env_flaky (hist ?w') ?k = None"
    unfolding w' by (simp add: env_flaky_def env_ok_def world0_def)
  have f: "audio_file file_request = Some (Path talk_mp3)"
    by (simp add: file_request_def)
  have n: "next_obj world0 = 0"
    by (simp add: world0_def)
  from failed_construction_not_cached [OF refl a b refl, of "Path talk_mp3"] a b c n
    transcribe_file [OF f, of env_flaky world0]
  show ?thesis
    by (simp add: getattr_name_def)
qed

section \<open>The two-tier download\<close>

lemmas env_eval = env_ok_def posix_join_def world0_def tier1_format_def tier2_format_def
  yt_dlp_cmd_def video_url_def ascii_def digits_numeral digits_small

lemmas download_eval = download_youtube_audio_def run_yt_dlp_def find_download_def Let_def
  endswith_def

text \<open>
  C5, as the code has it. Given the temporary directory, when the first run of the tool
  exits with a non-zero code, the tool is run a second time with the format \<open>best\<close>
  (the world left behind holds both runs). If the second run exits with zero, the result
  is decided by the directory listing: the first entry that does not end in \<open>.part\<close> and
  is a regular file is returned, and when there is none the resolver raises the
  no-file error. If the second run exits with a non-zero code too, the resolver raises a
  \<open>RuntimeError\<close> whose text is the first diagnostic, an empty line, and the second
  diagnostic (\<open>yt_dlp_failure\<close>: the exit code and the stripped error output of the run).
\<close>

theorem two_tier_download:
  assumes "mkdtemp E (hist w) (ascii ''yt_audio_'') = Inr tmpdir"
    and "outtmpl = path_join E tmpdir (ascii ''%(title)s.%(ext)s'')"
    and "w0 = log_event (EvMkdtemp (ascii ''yt_audio_'')) w"
    and "cmd1 = yt_dlp_cmd E tier1_format outtmpl url"
    and "cmd2 = yt_dlp_cmd E tier2_format outtmpl url"
    and "subprocess_run E (hist w0) cmd1 tmpdir = Inr p1"
    and "returncode p1 \<noteq> 0"
    and "subprocess_run E (hist w0 @ [EvRun cmd1 tmpdir]) cmd2 tmpdir = Inr p2"
    and "w2 = log_event (EvRun cmd2 tmpdir) (log_event (EvRun cmd1 tmpdir) w0)"
  shows "snd (download_youtube_audio E url w) = w2 \<and>
         (returncode p2 = 0 \<longrightarrow>
            fst (download_youtube_audio E url w) =
              (case filter (\<lambda>f. \<not> endswith f (ascii ''.part'') \<and> isfile E (hist w2) f)
                      (glob_glob E (hist w2) (path_join E tmpdir (ascii ''*''))) of
                 [] \<Rightarrow> Inl (Exn RuntimeError no_file_message)
               | f # fs \<Rightarrow> Inr f)) \<and>
         (returncode p2 \<noteq> 0 \<longrightarrow>
            fst (download_youtube_audio E url w) =
              Inl (Exn RuntimeError (yt_dlp_failure p1 @ nl @ nl @ yt_dlp_failure p2)))"
proof -
  have run1: "run_yt_dlp E url tmpdir outtmpl tier1_format w0 =
                (Inl (Exn RuntimeError (yt_dlp_failure p1)), log_event (EvRun cmd1 tmpdir) w0)"
    using assms(4,6,7) by (simp add: run_yt_dlp_def Let_def)
  have run2: "run_yt_dlp E url tmpdir outtmpl tier2_format (log_event (EvRun cmd1 tmpdir) w0) =
                (if returncode p2 \<noteq> 0 then Inl (Exn RuntimeError (yt_dlp_failure p2)) else Inr (), w2)"
    using assms(5,8,9) by (simp add: run_yt_dlp_def Let_def)
  have d: "download_youtube_audio E url w =
             (if returncode p2 \<noteq> 0
              then (Inl (Exn RuntimeError (yt_dlp_failure p1 @ nl @ nl @ yt_dlp_failure p2)), w2)
              else find_download E tmpdir w2)"
    using assms(1,2,3) run1 run2 by (simp add: download_youtube_audio_def Let_def)
  have f: "snd (find_download E tmpdir w2) = w2"
    by (simp add: find_download_def Let_def split: list.splits)
  have g: "fst (find_download E tmpdir w2) =
             (case filter (\<lambda>f. \<not> endswith f (ascii ''.part'') \<and> isfile E (hist w2) f)
                     (glob_glob E (hist w2) (path_join E tmpdir (ascii ''*''))) of
                [] \<Rightarrow> Inl (Exn RuntimeError no_file_message)
              | f # fs \<Rightarrow> Inr f)"
    by (simp add: find_download_def Let_def split: list.splits)
  from d f g show ?thesis
    by simp
qed

theorem two_tier_download_witness:
  "mkdtemp env_tier2_file (hist world0) (ascii ''yt_audio_'') = Inr (ascii ''/tmp/yt_audio_0'') \<and>
   fst (run_yt_dlp env_tier2_file video_url (ascii ''/tmp/yt_audio_0'')
          (ascii ''/tmp/yt_audio_0/%(title)s.%(ext)s'') tier1_format
          (log_event (EvMkdtemp (ascii ''yt_audio_'')) world0)) =
     Inl (Exn RuntimeError (yt_failed @ ascii ''(exit code 1):'' @ nl @ forbidden)) \<and>
   length (filter is_run (hist (snd (download_youtube_audio env_tier2_file video_url world0)))) = 2 \<and>
   fst (download_youtube_audio env_tier2_file video_url world0) =
     Inr (ascii ''/tmp/yt_audio_0/clip.m4a'')"
proof -
  let ?E = env_tier2_file
  let ?tmp = "ascii ''/tmp/yt_audio_0''"
  let ?w0 = "log_event (EvMkdtemp (ascii ''yt_audio_'')) world0"
  let ?out = "path_join ?E ?tmp (ascii ''%(title)s.%(ext)s'')"
  let ?cmd1 = "yt_dlp_cmd ?E tier1_format ?out video_url"
  let ?cmd2 = "yt_dlp_cmd ?E tier2_format ?out video_url"
  let ?p1 = "\<lparr>returncode = 1, stderr = forbidden @ nl\<rparr>"
  let ?p2 = "\<lparr>returncode = 0, stderr = []\<rparr>"
  have a: "mkdtemp ?E (hist world0) (ascii ''yt_audio_'') = Inr ?tmp"
    by (simp add: env_eval env_tier2_file_def)
  have b: "subprocess_run ?E (hist ?w0) ?cmd1 ?tmp = Inr ?p1"
    by (simp add: env_eval env_tier2_file_def)
  have c: "returncode ?p1 \<noteq> 0"
    by simp
  have d: "subprocess_run ?E (hist ?w0 @ [EvRun ?cmd1 ?tmp]) ?cmd2 ?tmp = Inr ?p2"
    by (simp add: env_eval env_tier2_file_def)
  have r: "fst (run_yt_dlp ?E video_url ?tmp (ascii ''/tmp/yt_audio_0/%(title)s.%(ext)s'')
                  tier1_format ?w0) =
             Inl (Exn RuntimeError (yt_failed @ ascii ''(exit code 1):'' @ nl @ forbidden))"
    by (simp add: run_yt_dlp_def Let_def env_eval env_tier2_file_def yt_dlp_failure_def
        yt_failed_def str_int_def forbidden_def str_eval)
  have g: "filter (\<lambda>f. \<not> endswith f (ascii ''.part'') \<and> isfile ?E h f)
             (glob_glob ?E h (path_join ?E ?tmp (ascii ''*''))) =
           [ascii ''/tmp/yt_audio_0/clip.m4a'']" for h
    by (simp add: env_eval env_tier2_file_def endswith_def)
  have h: "hist world0 = []"
    by (simp add: world0_def)
  from two_tier_download [OF a refl refl refl refl b c d refl] a r g h show ?thesis
    by simp
qed

text \<open>
  C5 as stated fails where the second tier exits with zero and the directory holds no
  file: the second tier did not fail, and the resolver raises all the same.
\<close>

theorem download_fails_after_tier2_success:
  "fst (run_yt_dlp env_tier2_empty video_url (ascii ''/tmp/yt_audio_0'')
          (ascii ''/tmp/yt_audio_0/%(title)s.%(ext)s'') tier2_format
          (log_event (EvRun (yt_dlp_cmd env_tier2_empty tier1_format
                               (ascii ''/tmp/yt_audio_0/%(title)s.%(ext)s'') video_url)
                            (ascii ''/tmp/yt_audio_0''))
             (log_event (EvMkdtemp (ascii ''yt_audio_'')) world0))) = Inr () \<and>
   fst (download_youtube_audio env_tier2_empty video_url world0) =
     Inl (Exn RuntimeError no_file_message)"
  by (simp add: download_eval env_eval env_tier2_file_def env_tier2_empty_def)

text \<open>The combined error when both tiers fail, in full.\<close>

lemma download_both_fail:
  "fst (download_youtube_audio env_both_fail video_url world0) =
     Inl (Exn RuntimeError
            (yt_failed @ ascii ''(exit code 1):'' @ nl @ forbidden @ nl @ nl @
             yt_failed @ ascii ''(exit code 1):'' @ nl @ unavailable))"
  by (simp add: download_eval env_eval env_both_fail_def yt_dlp_failure_def yt_failed_def
      str_int_def forbidden_def unavailable_def str_eval)

section \<open>What transcribe returns\<close>

lemma write_outputs_result:
  assumes "fst (write_outputs E t s w) = Inr (t', txt_path, srt_path)"
  shows "t' = t \<and> txt_path \<noteq> None \<and> srt_path \<noteq> None"
  using assms
  by (auto simp add: write_outputs_def Let_def split: sum.splits option.splits)

lemma resolve_audio_path_result:
  assumes "fst (resolve_audio_path E r w) = Inl (t, txt_path, srt_path)"
  shows "t \<noteq> [] \<and> txt_path = None \<and> srt_path = None"
  using assms
  by (auto simp add: resolve_audio_path_def download_failed_def ascii_def
      split: option.splits sum.splits prod.splits)

lemma transcribe_path_result:
  assumes "fst (transcribe_path E r a w) = Inr (t, txt_path, srt_path)"
  shows "(t \<noteq> [] \<and> txt_path = None \<and> srt_path = None) \<or> (txt_path \<noteq> None \<and> srt_path \<noteq> None)"
proof (cases "get_model E (model_name r) (device r) (compute_type r) w")
  case (Pair g w2)
  show ?thesis
  proof (cases g)
    case (Inl e)
    then show ?thesis
      using assms Pair by (auto simp add: transcribe_path_def load_failed_def)
  next
    case (Inr m)
    let ?lang = "if language r = ascii ''auto'' then None else Some (language r)"
    show ?thesis
    proof (cases "model_transcribe E (hist w2) m a (beam_size r) ?lang (task r)")
      case (Inl e)
      then show ?thesis
        using assms Pair Inr by (auto simp add: transcribe_path_def Let_def inference_failed_def)
    next
      case out: (Inr sm)
      then show ?thesis
        using assms Pair Inr write_outputs_result
        by (auto simp add: transcribe_path_def Let_def consume_eq
            split: prod.splits option.splits sum.splits)
    qed
  qed
qed

text \<open>
  C1, as the code has it. Whenever \<open>transcribe\<close> returns a tuple, the two paths are both
  \<^verbatim>\<open>None\<close> or both present; when they are \<^verbatim>\<open>None\<close> the text is a diagnostic and
  is not empty. When they are present the text is the transcript, which the code returns
  as it is, empty or not.
\<close>

theorem result_paths_together:
  assumes "fst (transcribe E r w) = Inr (t, txt_path, srt_path)"
  shows "(t \<noteq> [] \<and> txt_path = None \<and> srt_path = None) \<or> (txt_path \<noteq> None \<and> srt_path \<noteq> None)"
proof (cases "audio_file r = None \<and> strip (youtube_url r) = []")
  case True
  then show ?thesis
    using assms by (auto simp add: transcribe_def prompt_message_def)
next
  case False
  obtain x w1 where x: "resolve_audio_path E r w = (x, w1)"
    by (cases "resolve_audio_path E r w")
  show ?thesis
  proof (cases x)
    case (Inl res)
    then have "res = (t, txt_path, srt_path)"
      using assms False x by (simp add: transcribe_def)
    then show ?thesis
      using resolve_audio_path_result [of E r w t txt_path srt_path] x Inl by simp
  next
    case (Inr a)
    then have "fst (transcribe_path E r a w1) = Inr (t, txt_path, srt_path)"
      using assms False x by (simp add: transcribe_def)
    then show ?thesis
      by (rule transcribe_path_result)
  qed
qed

lemmas run_eval = transcribe_def resolve_audio_path_def transcribe_path_def write_outputs_def
  get_model_def cache_getitem_def getattr_name_def file_request_def blank_request_def talk_mp3_def
  consume_eq env_eval Let_def

lemma build_srt_hello_world:
  "build_srt hello_world =
     Inr (ascii ''1'' @ nl @ ascii ''00:00:00,000 --> 00:00:01,200'' @ nl @ ascii ''hello'' @ nl @ nl @
          ascii ''2'' @ nl @ ascii ''00:00:01,200 --> 00:00:02,500'' @ nl @ ascii ''world'' @ nl)"
  by (simp add: build_srt_def srt_block_def hello_world_def ts_eval str_int_def str_eval)

lemma lines_hello_world:
  "map (\<lambda>seg. strip (seg_text seg)) hello_world = [ascii ''hello'', ascii ''world'']"
  by (simp add: hello_world_def str_eval)

text \<open>The end-to-end example: a local file, a working engine, the two segments.\<close>

lemma transcribe_hello_world:
  "fst (transcribe env_ok file_request world0) =
     Inr (ascii ''hello'' @ nl @ ascii ''world'',
          Some (ascii ''/tmp/transcript_2/transcript.txt''),
          Some (ascii ''/tmp/transcript_2/subtitles.srt''))"
  by (simp add: run_eval build_srt_hello_world lines_hello_world, simp add: str_eval)

theorem result_paths_together_witness:
  "fst (transcribe env_ok file_request world0) =
     Inr (ascii ''hello'' @ nl @ ascii ''world'',
          Some (ascii ''/tmp/transcript_2/transcript.txt''),
          Some (ascii ''/tmp/transcript_2/subtitles.srt'')) \<and>
   Some (ascii ''/tmp/transcript_2/transcript.txt'') \<noteq> None \<and>
   Some (ascii ''/tmp/transcript_2/subtitles.srt'') \<noteq> None"
  using result_paths_together [OF transcribe_hello_world] transcribe_hello_world
  by simp

text \<open>
  C1 as stated fails when the engine yields no segment: both files are written and
  the returned text is empty.
\<close>

theorem empty_transcript_with_paths:
  "fst (transcribe env_silent file_request world0) =
     Inr ([], Some (ascii ''/tmp/transcript_2/transcript.txt''),
          Some (ascii ''/tmp/transcript_2/subtitles.srt''))"
  by (simp add: run_eval env_silent_def build_srt_def str_eval)

text \<open>The stages inside a \<^verbatim>\<open>try\<close>: a failed download and a failed call of the
  engine come back as diagnostics (a failed construction is in the section on the cache).\<close>

lemma download_failure_returned:
  assumes "audio_file r = None" and "strip (youtube_url r) \<noteq> []"
    and "fst (download_youtube_audio E (strip (youtube_url r)) w) = Inl e"
  shows "fst (transcribe E r w) = Inr (download_failed @ exn_str e, None, None)"
proof -
  obtain w' where "download_youtube_audio E (strip (youtube_url r)) w = (Inl e, w')"
    using assms(3) by (cases "download_youtube_audio E (strip (youtube_url r)) w") simp
  then show ?thesis
    using assms(1,2) by (simp add: transcribe_def resolve_audio_path_def)
qed

lemma inference_failure_returned:
  assumes "get_model E (model_name r) (device r) (compute_type r) w = (Inr m, w2)"
    and "lang = (if language r = ascii ''auto'' then None else Some (language r))"
    and "model_transcribe E (hist w2) m a (beam_size r) lang (task r) = Inl e"
  shows "fst (transcribe_path E r a w) = Inr (inference_failed @ exn_str e, None, None)"
  using assms by (simp add: transcribe_path_def Let_def)

text \<open>
  C2 does not hold of the code. The loop over the segments, \<open>build_srt\<close> and the writing
  of the two files stand outside every \<^verbatim>\<open>try\<close>: when a file cannot be written, or
  when the lazy iterator of the engine raises while it is consumed, the exception leaves
  \<open>transcribe\<close>.
\<close>

theorem transcribe_raises:
  "fst (transcribe env_disk_full file_request world0) =
     Inl (Exn OSError (ascii ''[Errno 28] No space left on device'')) \<and>
   fst (transcribe env_lazy_failure file_request world0) =
     Inl (Exn RuntimeError (ascii ''CUDA out of memory''))"
  by (simp add: run_eval env_disk_full_def env_lazy_failure_def build_srt_hello_world
      lines_hello_world)

text \<open>A URL request on the machine where everything succeeds, and on the one where both
  tiers of the download fail: the failure comes back as the diagnostic.\<close>

lemma download_ok:
  "download_youtube_audio env_ok video_url world0 =
     (Inr (ascii ''/tmp/yt_audio_0/clip.m4a''),
      log_event (EvRun (yt_dlp_cmd env_ok tier1_format (ascii ''/tmp/yt_audio_0/%(title)s.%(ext)s'') video_url)
                   (ascii ''/tmp/yt_audio_0''))
        (log_event (EvMkdtemp (ascii ''yt_audio_'')) world0))"
  by (simp add: download_eval env_eval)

lemma transcribe_url:
  "fst (transcribe env_ok url_request world0) =
     Inr (ascii ''hello'' @ nl @ ascii ''world'',
          Some (ascii ''/tmp/transcript_4/transcript.txt''),
          Some (ascii ''/tmp/transcript_4/subtitles.srt''))"
proof -
  have u: "strip (youtube_url url_request) = video_url"
    by (simp add: url_request_def blank_request_def video_url_def str_eval)
  have a: "audio_file url_request = None"
    by (simp add: url_request_def blank_request_def)
  have v: "video_url \<noteq> []"
    by (simp add: video_url_def ascii_def)
  show ?thesis
    using u a v download_ok
    apply (simp add: transcribe_def resolve_audio_path_def)
    apply (simp add: transcribe_path_def get_model_def cache_getitem_def write_outputs_def  url_request_def blank_request_def consume_eq
        env_eval Let_def build_srt_hello_world lines_hello_world)
    apply (simp add: str_eval)
    done
qed

lemma transcribe_url_both_fail:
  "fst (transcribe env_both_fail url_request world0) =
     Inr (download_failed @
          yt_failed @ ascii ''(exit code 1):'' @ nl @ forbidden @ nl @ nl @
          yt_failed @ ascii ''(exit code 1):'' @ nl @ unavailable, None, None)"
proof -
  have u: "strip (youtube_url url_request) = video_url"
    by (simp add: url_request_def blank_request_def video_url_def str_eval)
  have a: "audio_file url_request = None"
    by (simp add: url_request_def blank_request_def)
  have v: "video_url \<noteq> []"
    by (simp add: video_url_def ascii_def)
  obtain x w' where d: "download_youtube_audio env_both_fail video_url world0 = (x, w')"
    by (cases "download_youtube_audio env_both_fail video_url world0")
  then have x: "x = Inl (Exn RuntimeError
            (yt_failed @ ascii ''(exit code 1):'' @ nl @ forbidden @ nl @ nl @
             yt_failed @ ascii ''(exit code 1):'' @ nl @ unavailable))"
    using download_both_fail by simp
  show ?thesis
    using u a v d x by (simp add: transcribe_def resolve_audio_path_def)
qed

section \<open>A file and a URL together\<close>

lemma hist_write_outputs:
  "\<exists>rest. hist (snd (write_outputs E t s w)) = hist w @ rest"
  by (simp add: write_outputs_def Let_def split: sum.splits option.splits)

lemma transcribe_path_load_failure:
  assumes "get_model E (model_name r) (device r) (compute_type r) w = (Inl e, w2)"
  shows "transcribe_path E r a w = (Inr (load_failed @ exn_str e, None, None), w2)"
  using assms by (simp add: transcribe_path_def)

lemma transcribe_path_success:
  assumes "get_model E (model_name r) (device r) (compute_type r) w = (Inr m, w2)"
    and "lang = (if language r = ascii ''auto'' then None else Some (language r))"
    and "model_transcribe E (hist w2) m a (beam_size r) lang (task r) = Inr (Segments segs None, meta)"
    and "build_srt segs = Inr srt_text"
  shows "transcribe_path E r a w =
           write_outputs E (strip (join nl (map (\<lambda>seg. strip (seg_text seg)) segs))) srt_text
             (log_event (EvInfer m a (beam_size r) lang (task r)) w2)"
  using assms by (simp add: transcribe_path_def Let_def consume_eq)

lemma transcribe_path_infers:
  assumes "get_model E (model_name r) (device r) (compute_type r) w = (Inr m, w2)"
    and "lang = (if language r = ascii ''auto'' then None else Some (language r))"
  shows "\<exists>rest. hist (snd (transcribe_path E r a w)) =
           hist w2 @ EvInfer m a (beam_size r) lang (task r) # rest"
proof -
  define w3 where "w3 = log_event (EvInfer m a (beam_size r) lang (task r)) w2"
  have h3: "hist w3 = hist w2 @ [EvInfer m a (beam_size r) lang (task r)]"
    by (simp add: w3_def)
  have wo: "\<exists>rest. hist (snd (write_outputs E t s w3)) =
              hist w2 @ EvInfer m a (beam_size r) lang (task r) # rest" for t s
    using hist_write_outputs [of E t s w3] h3 by auto
  show ?thesis
  proof (cases "model_transcribe E (hist w2) m a (beam_size r) lang (task r)")
    case (Inl e)
    then show ?thesis
      using assms h3 by (simp add: transcribe_path_def Let_def w3_def)
  next
    case out: (Inr sm)
    obtain segs meta where sm: "sm = (segs, meta)" by (cases sm)
    show ?thesis
    proof (cases "failure segs")
      case None
      show ?thesis
      proof (cases "build_srt (yielded segs)")
        case (Inl e)
        then show ?thesis
          using assms out sm None h3
          by (simp add: transcribe_path_def Let_def consume_eq w3_def)
      next
        case srt: (Inr srt_text)
        then show ?thesis
          using assms out sm None wo
          by (simp add: transcribe_path_def Let_def consume_eq w3_def)
      qed
    next
      case (Some e)
      then show ?thesis
        using assms out sm h3
        by (simp add: transcribe_path_def Let_def consume_eq w3_def)
    qed
  qed
qed

lemma transcribe_path_not_prompt:
  "fst (transcribe_path E r a w) \<noteq> Inr (prompt_message, None, None)"
proof (cases "get_model E (model_name r) (device r) (compute_type r) w")
  case (Pair g w2)
  show ?thesis
  proof (cases g)
    case (Inl e)
    then show ?thesis
      using Pair by (simp add: transcribe_path_def load_failed_def prompt_message_def)
  next
    case (Inr m)
    let ?lang = "if language r = ascii ''auto'' then None else Some (language r)"
    show ?thesis
    proof (cases "model_transcribe E (hist w2) m a (beam_size r) ?lang (task r)")
      case (Inl e)
      then show ?thesis
        using Pair Inr
        by (simp add: transcribe_path_def Let_def inference_failed_def prompt_message_def)
    next
      case out: (Inr sm)
      have "fst (write_outputs E t s w') \<noteq> Inr (prompt_message, None, None)" for t s w'
        using write_outputs_result [of E t s w' prompt_message None None] by auto
      then show ?thesis
        using Pair Inr out
        by (auto simp add: transcribe_path_def Let_def consume_eq
            split: prod.splits option.splits sum.splits)
    qed
  qed
qed

lemma hist_hello_world:
  "take 2 (hist (snd (transcribe env_ok file_request world0))) =
     [EvConstruct (ascii ''small'', ascii ''cuda'', ascii ''float16''),
      EvInfer (Engine 0) (Path talk_mp3) 5 None (ascii ''transcribe'')]"
  by (simp add: run_eval build_srt_hello_world lines_hello_world)

text \<open>
  C10. When a file is given, the URL plays no part, and it is the file that is transcribed.
  For a request with a file and any URL \<open>u\<close>:

    \<^item> \<open>transcribe\<close> does exactly what it does for the same request with its own URL (so
      also with the empty one), and adds no run of the download tool to the history;
    \<^item> the request is not refused: the result is never the prompt for a source
      (line 160);
    \<^item> the engine is looked up for the request's model (line 175); when that fails, the
      result is the load diagnostic and nothing else happens;
    \<^item> when the engine \<open>m\<close> is there, the next event is the call of \<open>m.transcribe\<close> on the
      path of the file (the string itself, or the non-empty name of the upload object,
      lines 163-165), with the request's beam size, language and task. When that call
      raises, the result is the inference diagnostic; when it yields the segments \<open>segs\<close>
      and they render, the result is what writing the transcript and the subtitles of
      \<open>segs\<close> gives.
\<close>

theorem file_takes_precedence:
  assumes "audio_file r = Some f"
    and "a = (case getattr_name f of None \<Rightarrow> f | Some n \<Rightarrow> if n = [] then f else Path n)"
    and "lang = (if language r = ascii ''auto'' then None else Some (language r))"
  shows "transcribe E (r\<lparr>youtube_url := u\<rparr>) w = transcribe E r w \<and>
         filter is_run (hist (snd (transcribe E (r\<lparr>youtube_url := u\<rparr>) w))) = filter is_run (hist w) \<and>
         fst (transcribe E (r\<lparr>youtube_url := u\<rparr>) w) \<noteq> Inr (prompt_message, None, None) \<and>
         (\<forall>e w2. get_model E (model_name r) (device r) (compute_type r) w = (Inl e, w2) \<longrightarrow>
            transcribe E (r\<lparr>youtube_url := u\<rparr>) w = (Inr (load_failed @ exn_str e, None, None), w2)) \<and>
         (\<forall>m w2. get_model E (model_name r) (device r) (compute_type r) w = (Inr m, w2) \<longrightarrow>
            (\<exists>rest. hist (snd (transcribe E (r\<lparr>youtube_url := u\<rparr>) w)) =
                      hist w2 @ EvInfer m a (beam_size r) lang (task r) # rest) \<and>
            (\<forall>e. model_transcribe E (hist w2) m a (beam_size r) lang (task r) = Inl e \<longrightarrow>
               fst (transcribe E (r\<lparr>youtube_url := u\<rparr>) w) =
                 Inr (inference_failed @ exn_str e, None, None)) \<and>
            (\<forall>segs meta srt_text.
               model_transcribe E (hist w2) m a (beam_size r) lang (task r) =
                 Inr (Segments segs None, meta) \<longrightarrow>
               build_srt segs = Inr srt_text \<longrightarrow>
               transcribe E (r\<lparr>youtube_url := u\<rparr>) w =
                 write_outputs E (strip (join nl (map (\<lambda>seg. strip (seg_text seg)) segs))) srt_text
                   (log_event (EvInfer m a (beam_size r) lang (task r)) w2)))"
proof -
  have t: "transcribe E r w = transcribe_path E r a w"
    using transcribe_file [OF assms(1), of E w] assms(2) by simp
  have same: "transcribe E (r\<lparr>youtube_url := u\<rparr>) w = transcribe E r w"
    using assms(1) transcribe_file [of r f E w] transcribe_file [of "r\<lparr>youtube_url := u\<rparr>" f E w]
    by simp
  have runs: "filter is_run (hist (snd (transcribe E r w))) = filter is_run (hist w)"
    using runs_transcribe_file [OF assms(1), of E w] .
  have np: "fst (transcribe E r w) \<noteq> Inr (prompt_message, None, None)"
    unfolding t by (rule transcribe_path_not_prompt)
  have lf: "transcribe E r w = (Inr (load_failed @ exn_str e, None, None), w2)"
    if "get_model E (model_name r) (device r) (compute_type r) w = (Inl e, w2)" for e w2
    unfolding t using that by (rule transcribe_path_load_failure)
  have ev: "\<exists>rest. hist (snd (transcribe E r w)) =
                    hist w2 @ EvInfer m a (beam_size r) lang (task r) # rest"
    if "get_model E (model_name r) (device r) (compute_type r) w = (Inr m, w2)" for m w2
    unfolding t using that assms(3) by (rule transcribe_path_infers)
  have inf: "fst (transcribe E r w) = Inr (inference_failed @ exn_str e, None, None)"
    if "get_model E (model_name r) (device r) (compute_type r) w = (Inr m, w2)"
      and "model_transcribe E (hist w2) m a (beam_size r) lang (task r) = Inl e" for m w2 e
    unfolding t using that(1) assms(3) that(2) by (rule inference_failure_returned)
  have ok: "transcribe E r w =
              write_outputs E (strip (join nl (map (\<lambda>seg. strip (seg_text seg)) segs))) srt_text
                (log_event (EvInfer m a (beam_size r) lang (task r)) w2)"
    if "get_model E (model_name r) (device r) (compute_type r) w = (Inr m, w2)"
      and "model_transcribe E (hist w2) m a (beam_size r) lang (task r) = Inr (Segments segs None, meta)"
      and "build_srt segs = Inr srt_text" for m w2 segs meta srt_text
    unfolding t using that(1) assms(3) that(2,3) by (rule transcribe_path_success)
  show ?thesis
    unfolding same using runs np lf ev inf ok by blast
qed

theorem file_takes_precedence_witness:
  "audio_file file_request = Some (Path talk_mp3) \<and>
   strip video_url \<noteq> [] \<and>
   transcribe env_ok (file_request\<lparr>youtube_url := video_url\<rparr>) world0 =
     transcribe env_ok file_request world0 \<and>
   filter is_run (hist (snd (transcribe env_ok (file_request\<lparr>youtube_url := video_url\<rparr>) world0))) = [] \<and>
   fst (transcribe env_ok (file_request\<lparr>youtube_url := video_url\<rparr>) world0) =
     Inr (ascii ''hello'' @ nl @ ascii ''world'',
          Some (ascii ''/tmp/transcript_2/transcript.txt''),
          Some (ascii ''/tmp/transcript_2/subtitles.srt'')) \<and>
   take 2 (hist (snd (transcribe env_ok (file_request\<lparr>youtube_url := video_url\<rparr>) world0))) =
     [EvConstruct (ascii ''small'', ascii ''cuda'', ascii ''float16''),
      EvInfer (Engine 0) (Path talk_mp3) 5 None (ascii ''transcribe'')]"
proof -
  have a: "audio_file file_request = Some (Path talk_mp3)"
    by (simp add: file_request_def)
  have b: "strip video_url \<noteq> []"
    by (simp add: video_url_def str_eval)
  have h: "hist world0 = []"
    by (simp add: world0_def)
  note p = file_takes_precedence [OF a refl refl, of env_ok video_url world0]
  from p have same: "transcribe env_ok (file_request\<lparr>youtube_url := video_url\<rparr>) world0 =
      transcribe env_ok file_request world0"
    and runs: "filter is_run (hist (snd (transcribe env_ok (file_request\<lparr>youtube_url := video_url\<rparr>) world0))) =
      filter is_run (hist world0)"
    by blast+
  show ?thesis
    using a b same runs h transcribe_hello_world hist_hello_world by simp
qed

end
